theory Spec2Isabelle
  imports Complex_Main "HOL-Library.Char_ord" "HOL-Library.List_Lexorder"
begin

section \<open>Characters and text\<close>

text \<open>
  A Python \<open>str\<close> is a sequence of code points. This development covers the texts whose
  code points are below 256 (ASCII and the Latin-1 supplement): one \<^typ>\<open>char\<close> stands for
  one code point, and \<open>length\<close> counts code points as Python's \<open>len\<close> does. The character
  classes below are the ones CPython uses for \<open>str\<close> on that range:
  \<^item> \<open>[a-zA-Z]\<close> in a pattern: the 52 ASCII letters;
  \<^item> \<open>\d\<close> in a pattern: the decimal digits (category Nd), here \<open>0\<close> to \<open>9\<close>;
  \<^item> \<open>str.isalpha\<close>: the letters (categories L*), here the ASCII letters, U+00AA, U+00B5,
    U+00BA, U+00C0 to U+00D6, U+00D8 to U+00F6 and U+00F8 to U+00FF;
  \<^item> \<open>\w\<close> (and so \<open>\b\<close>): alphanumeric code points and the underscore; besides the letters and
    the decimal digits these are U+00B2, U+00B3, U+00B9 (digits) and U+00BC to U+00BE
    (numeric);
  \<^item> the white space \<open>str.split()\<close> splits at: U+0009 to U+000D, U+001C to U+0020, U+0085
    and U+00A0;
  \<^item> \<open>str.lower\<close>: adds 32 to \<open>A\<close> to \<open>Z\<close>, to U+00C0 to U+00D6 and to U+00D8 to U+00DE.
\<close>

definition code_point :: "char \<Rightarrow> nat" where
  "code_point c = of_char c"

definition ascii_letter :: "char \<Rightarrow> bool" where
  "ascii_letter c =
     (let n = code_point c in (65 \<le> n \<and> n \<le> 90) \<or> (97 \<le> n \<and> n \<le> 122))"

definition re_digit :: "char \<Rightarrow> bool" where
  "re_digit c = (let n = code_point c in 48 \<le> n \<and> n \<le> 57)"

definition isalpha :: "char \<Rightarrow> bool" where
  "isalpha c =
     (let n = code_point c in
        (65 \<le> n \<and> n \<le> 90) \<or> (97 \<le> n \<and> n \<le> 122) \<or> n = 170 \<or> n = 181 \<or> n = 186 \<or>
        (192 \<le> n \<and> n \<le> 214) \<or> (216 \<le> n \<and> n \<le> 246) \<or> 248 \<le> n)"

definition re_word :: "char \<Rightarrow> bool" where
  "re_word c =
     (let n = code_point c in
        isalpha c \<or> re_digit c \<or> n = 95 \<or> n = 178 \<or> n = 179 \<or> n = 185 \<or>
        (188 \<le> n \<and> n \<le> 190))"

definition isspace :: "char \<Rightarrow> bool" where
  "isspace c =
     (let n = code_point c in
        (9 \<le> n \<and> n \<le> 13) \<or> (28 \<le> n \<and> n \<le> 32) \<or> n = 133 \<or> n = 160)"

definition lower_char :: "char \<Rightarrow> char" where
  "lower_char c =
     (let n = code_point c in
        if (65 \<le> n \<and> n \<le> 90) \<or> (192 \<le> n \<and> n \<le> 214) \<or> (216 \<le> n \<and> n \<le> 222)
        then char_of (n + 32) else c)"

definition lower :: "string \<Rightarrow> string" where
  "lower s = map lower_char s"

section \<open>Regular-expression scans of the source\<close>

text \<open>
  \<open>\b\<close> holds between two positions when exactly one of the neighbouring characters is a
  word character; the start and the end of the text count as no word character.
  \<open>prev\<close> is the character before the position (\<open>None\<close> at the start of the text) and the
  string is the text from the position on.
\<close>

fun word_opt :: "char option \<Rightarrow> bool" where
  "word_opt None = False"
| "word_opt (Some c) = re_word c"

fun next_char :: "string \<Rightarrow> char option" where
  "next_char [] = None"
| "next_char (c # cs) = Some c"

definition at_boundary :: "char option \<Rightarrow> string \<Rightarrow> bool" where
  "at_boundary prev rest = (word_opt prev \<noteq> word_opt (next_char rest))"

text \<open>
  \<open>re.findall(r'\b[a-zA-Z]+\b', text)\<close> (contraction_handler.py line 124, word_analyzer.py
  line 44). At a position with a boundary, the greedy \<open>[a-zA-Z]+\<close> takes the longest run of
  ASCII letters; the match succeeds when a boundary follows the run. A shorter run never
  helps: it ends between two letters, where there is no boundary. After a match the scan
  goes on behind it, otherwise one character further.
\<close>

function findall_bounded :: "char option \<Rightarrow> string \<Rightarrow> string list" where
  "findall_bounded prev [] = []"
| "findall_bounded prev (c # cs) =
     (let run = takeWhile ascii_letter (c # cs);
          rest = dropWhile ascii_letter (c # cs)
      in if at_boundary prev (c # cs) \<and> run \<noteq> [] \<and> at_boundary (Some (last run)) rest
         then run # findall_bounded (Some (last run)) rest
         else findall_bounded (Some c) cs)"
  by pat_completeness auto
termination
  by (relation "measure (\<lambda>(prev, s). length s)")
     (auto split: if_splits intro: le_imp_less_Suc length_dropWhile_le)

text \<open>\<open>re.findall(r'[a-zA-Z]+', text)\<close> (verify.py line 68): the maximal runs of ASCII letters.\<close>

function findall_alpha :: "string \<Rightarrow> string list" where
  "findall_alpha [] = []"
| "findall_alpha (c # cs) =
     (let run = takeWhile ascii_letter (c # cs)
      in if run \<noteq> [] then run # findall_alpha (dropWhile ascii_letter (c # cs))
         else findall_alpha cs)"
  by pat_completeness auto
termination
  by (relation "measure length")
     (auto split: if_splits intro: le_imp_less_Suc length_dropWhile_le)

text \<open>\<open>re.sub(r'\d+', '', text)\<close> (verify.py line 65): every maximal run of digits is removed.\<close>

function remove_digit_runs :: "string \<Rightarrow> string" where
  "remove_digit_runs [] = []"
| "remove_digit_runs (c # cs) =
     (if re_digit c then remove_digit_runs (dropWhile re_digit cs)
      else c # remove_digit_runs cs)"
  by pat_completeness auto
termination
  by (relation "measure length") (auto intro: le_imp_less_Suc length_dropWhile_le)

text \<open>
  A literal pattern matched at the start of the text under \<open>re.IGNORECASE\<close>: the lower-case
  forms of pattern character and text character agree.
\<close>

fun match_ci :: "string \<Rightarrow> string \<Rightarrow> bool" where
  "match_ci [] cs = True"
| "match_ci (p # ps) [] = False"
| "match_ci (p # ps) (c # cs) = (lower_char p = lower_char c \<and> match_ci ps cs)"

text \<open>
  \<open>re.sub(r'\b' + re.escape(contraction) + r'\b', replacement, text, flags=re.IGNORECASE)\<close>
  (contraction_handler.py lines 98 to 100), for a non-empty literal \<open>pat\<close>: scanning from
  the left, a match needs a boundary before it, the literal, and a boundary behind it; it is
  replaced and the scan goes on behind the matched text.
\<close>

function sub_contraction :: "string \<Rightarrow> string \<Rightarrow> char option \<Rightarrow> string \<Rightarrow> string" where
  "sub_contraction pat repl prev [] = []"
| "sub_contraction pat repl prev (c # cs) =
     (let matched = take (length pat) (c # cs);
          rest = drop (length pat) (c # cs)
      in if pat \<noteq> [] \<and> at_boundary prev (c # cs) \<and> match_ci pat (c # cs) \<and>
            at_boundary (Some (last matched)) rest
         then repl @ sub_contraction pat repl (Some (last matched)) rest
         else c # sub_contraction pat repl (Some c) cs)"
  by pat_completeness auto
termination
  by (relation "measure (\<lambda>(pat, repl, prev, s). length s)") auto

text \<open>
  \<open>re.sub(r"\b([a-zA-Z]+)'s\b", r'\1', text)\<close> (contraction_handler.py line 105), case
  sensitive: a boundary, the longest run of ASCII letters (a shorter one is followed by a
  letter, not by the apostrophe), then \<open>'s\<close> and a boundary. The match is replaced by the
  run of letters.
\<close>

function sub_possessive :: "char option \<Rightarrow> string \<Rightarrow> string" where
  "sub_possessive prev [] = []"
| "sub_possessive prev (c # cs) =
     (let run = takeWhile ascii_letter (c # cs);
          after = dropWhile ascii_letter (c # cs)
      in if at_boundary prev (c # cs) \<and> run \<noteq> [] \<and> take 2 after = [CHR 0x27, CHR ''s''] \<and>
            at_boundary (Some (CHR ''s'')) (drop 2 after)
         then run @ sub_possessive (Some (CHR ''s'')) (drop 2 after)
         else c # sub_possessive (Some c) cs)"
  by pat_completeness auto
termination
  by (relation "measure (\<lambda>(prev, s). length s)")
     (auto split: if_splits intro: le_imp_less_Suc length_dropWhile_le
           order.trans [OF diff_le_self])

section \<open>The contraction expander (contraction_handler.py)\<close>

text \<open>
  The table of the source, in the order of its entries: a Python \<open>dict\<close> is iterated in
  insertion order, and the loop of \<open>expand_contractions\<close> substitutes one entry after the other.
\<close>

definition STANDARD_CONTRACTIONS :: "(string \<times> string list) list" where
  "STANDARD_CONTRACTIONS =
    [(''i'm'', [''i'', ''am'']),
     (''you're'', [''you'', ''are'']),
     (''he's'', [''he'', ''is'']),
     (''she's'', [''she'', ''is'']),
     (''it's'', [''it'', ''is'']),
     (''we're'', [''we'', ''are'']),
     (''they're'', [''they'', ''are'']),
     (''i've'', [''i'', ''have'']),
     (''you've'', [''you'', ''have'']),
     (''we've'', [''we'', ''have'']),
     (''they've'', [''they'', ''have'']),
     (''i'll'', [''i'', ''will'']),
     (''you'll'', [''you'', ''will'']),
     (''he'll'', [''he'', ''will'']),
     (''she'll'', [''she'', ''will'']),
     (''it'll'', [''it'', ''will'']),
     (''we'll'', [''we'', ''will'']),
     (''they'll'', [''they'', ''will'']),
     (''i'd'', [''i'', ''would'']),
     (''you'd'', [''you'', ''would'']),
     (''he'd'', [''he'', ''would'']),
     (''she'd'', [''she'', ''would'']),
     (''it'd'', [''it'', ''would'']),
     (''we'd'', [''we'', ''would'']),
     (''they'd'', [''they'', ''would'']),
     (''who's'', [''who'', ''is'']),
     (''what's'', [''what'', ''is'']),
     (''where's'', [''where'', ''is'']),
     (''when's'', [''when'', ''is'']),
     (''why's'', [''why'', ''is'']),
     (''how's'', [''how'', ''is'']),
     (''there's'', [''there'', ''is'']),
     (''that's'', [''that'', ''is'']),
     (''here's'', [''here'', ''is'']),
     (''don't'', [''do'', ''not'']),
     (''doesn't'', [''does'', ''not'']),
     (''didn't'', [''did'', ''not'']),
     (''can't'', [''can'', ''not'']),
     (''cannot'', [''can'', ''not'']),
     (''couldn't'', [''could'', ''not'']),
     (''won't'', [''will'', ''not'']),
     (''wouldn't'', [''would'', ''not'']),
     (''shouldn't'', [''should'', ''not'']),
     (''mustn't'', [''must'', ''not'']),
     (''isn't'', [''is'', ''not'']),
     (''aren't'', [''are'', ''not'']),
     (''wasn't'', [''was'', ''not'']),
     (''weren't'', [''were'', ''not'']),
     (''hasn't'', [''has'', ''not'']),
     (''haven't'', [''have'', ''not'']),
     (''hadn't'', [''had'', ''not'']),
     (''needn't'', [''need'', ''not'']),
     (''daren't'', [''dare'', ''not'']),
     (''shan't'', [''shall'', ''not'']),
     (''let's'', [''let'', ''us'']),
     (''ma'am'', [''madam'']),
     (''o'clock'', [''of'', ''the'', ''clock''])]"

text \<open>\<open>' '.join(expansion)\<close>\<close>

fun join_spaces :: "string list \<Rightarrow> string" where
  "join_spaces [] = []"
| "join_spaces [w] = w"
| "join_spaces (w # ws) = w @ '' '' @ join_spaces ws"

text \<open>Step 1 of \<open>expand_contractions\<close> (lines 96 to 100): the loop over the table.\<close>

definition expand_standard :: "string \<Rightarrow> string" where
  "expand_standard text =
     foldl (\<lambda>t (contraction, expansion).
              sub_contraction contraction (join_spaces expansion) None t)
       text STANDARD_CONTRACTIONS"

text \<open>Step 2 (line 105) strips the possessive from the text step 1 has produced.\<close>

definition expand_contractions :: "string \<Rightarrow> string" where
  "expand_contractions text = sub_possessive None (expand_standard text)"

definition extract_words_with_smart_contractions :: "string \<Rightarrow> string list" where
  "extract_words_with_smart_contractions text =
     (let expanded_text = expand_contractions text;
          words = findall_bounded None expanded_text
      in map lower words)"

section \<open>Dictionaries and counting\<close>

text \<open>
  A Python \<open>dict\<close> keeps its keys in the order of their first insertion, so it is an
  association list with distinct keys. \<open>Counter(words)\<close> runs
  \<open>self[elem] = self.get(elem, 0) + 1\<close> over the words.
\<close>

fun dict_get :: "('k \<times> 'v) list \<Rightarrow> 'k \<Rightarrow> 'v \<Rightarrow> 'v" where
  "dict_get [] k dflt = dflt"
| "dict_get ((k', v) # d) k dflt = (if k' = k then v else dict_get d k dflt)"

fun dict_set :: "('k \<times> 'v) list \<Rightarrow> 'k \<Rightarrow> 'v \<Rightarrow> ('k \<times> 'v) list" where
  "dict_set [] k v = [(k, v)]"
| "dict_set ((k', v') # d) k v =
     (if k' = k then (k', v) # d else (k', v') # dict_set d k v)"

definition Counter :: "'k list \<Rightarrow> ('k \<times> int) list" where
  "Counter elems = foldl (\<lambda>d elem. dict_set d elem (dict_get d elem 0 + 1)) [] elems"

definition keys :: "('k \<times> 'v) list \<Rightarrow> 'k list" where
  "keys d = map fst d"

section \<open>The three counting methods (verify.py)\<close>

datatype method_label = Method1 | Method2 | Method3

record method_result =
  method_name :: method_label
  total_words :: int
  unique_words :: int
  word_list :: "string list"
  word_freq :: "(string \<times> int) list"

text \<open>The common tail of the three methods: count, aggregate, build the result.\<close>

definition make_result :: "method_label \<Rightarrow> string list \<Rightarrow> method_result" where
  "make_result label words =
     (let n_total = int (length words);
          freq = Counter words;
          n_unique = int (length freq)
      in \<lparr>method_name = label, total_words = n_total, unique_words = n_unique,
          word_list = words, word_freq = freq\<rparr>)"

definition count_words_method1 :: "string \<Rightarrow> method_result" where
  "count_words_method1 text = make_result Method1 (extract_words_with_smart_contractions text)"

text \<open>\<open>text.split()\<close>: the maximal runs of characters that are not white space.\<close>

function split_whitespace :: "string \<Rightarrow> string list" where
  "split_whitespace [] = []"
| "split_whitespace (c # cs) =
     (if isspace c then split_whitespace cs
      else takeWhile (\<lambda>x. \<not> isspace x) (c # cs) #
           split_whitespace (dropWhile (\<lambda>x. \<not> isspace x) cs))"
  by pat_completeness auto
termination
  by (relation "measure length") (auto intro: le_imp_less_Suc length_dropWhile_le)

text \<open>
  The characters \<open>token.strip(...)\<close> removes at both ends (line 39): punctuation, brackets,
  digits, hyphen, apostrophe and double quote. The en dash and the em dash of the source's
  set are code points above 255.
\<close>

definition strip_chars :: "char list" where
  "strip_chars = ''.,!?;:'' @ [CHR 0x22] @ ''()[]{}0123456789-'' @ [CHR 0x27, CHR 0x22, CHR 0x22]"

definition strip :: "string \<Rightarrow> string" where
  "strip token =
     rev (dropWhile (\<lambda>c. c \<in> set strip_chars) (rev (dropWhile (\<lambda>c. c \<in> set strip_chars) token)))"

text \<open>The loop of \<open>count_words_method2\<close> (lines 37 to 45).\<close>

fun method2_words :: "string list \<Rightarrow> string list" where
  "method2_words [] = []"
| "method2_words (token # tokens) =
     (let cleaned = strip token
      in if cleaned \<noteq> [] \<and> list_ex isalpha cleaned
         then (let alpha_only = filter isalpha cleaned
               in if alpha_only \<noteq> [] then lower alpha_only # method2_words tokens
                  else method2_words tokens)
         else method2_words tokens)"

definition count_words_method2 :: "string \<Rightarrow> method_result" where
  "count_words_method2 text = make_result Method2 (method2_words (split_whitespace text))"

definition count_words_method3 :: "string \<Rightarrow> method_result" where
  "count_words_method3 text =
     (let text_no_numbers = remove_digit_runs text;
          words = findall_alpha text_no_numbers
      in make_result Method3 (map lower (filter (\<lambda>word. length word > 0) words)))"

section \<open>Comparing the methods (verify.py, compare_results)\<close>

datatype py_error = KeyError | ZeroDivisionError

datatype status = StatusPass | StatusWarning

text \<open>One of the two inner dictionaries of the report, under \<open>'total_words'\<close> or \<open>'unique_words'\<close>.\<close>

record metric_report =
  mr_consistent :: bool
  mr_values :: "(method_label \<times> int) list"
  mr_min :: int
  mr_max :: int
  mr_difference :: int

record comparison_report =
  cr_status :: status
  cr_consistent :: bool
  cr_total_words :: metric_report
  cr_unique_words :: metric_report

text \<open>
  With fewer than two results \<open>compare_results\<close> returns the dictionary
  \<open>{'status': 'error', 'message': ...}\<close>, which has none of the other keys.
\<close>

datatype comparison = ErrorReport | Report comparison_report

text \<open>\<open>max\<close> and \<open>min\<close> of a non-empty sequence, given as its first element and the rest.\<close>

fun py_max :: "int \<Rightarrow> int list \<Rightarrow> int" where
  "py_max best [] = best"
| "py_max best (x # xs) = py_max (if x > best then x else best) xs"

fun py_min :: "int \<Rightarrow> int list \<Rightarrow> int" where
  "py_min best [] = best"
| "py_min best (x # xs) = py_min (if x < best then x else best) xs"

definition metric :: "method_result list \<Rightarrow> int \<Rightarrow> int list \<Rightarrow> (method_result \<Rightarrow> int) \<Rightarrow> metric_report" where
  "metric results v vs field =
     \<lparr>mr_consistent = (card (set (v # vs)) = 1),
      mr_values = foldl (\<lambda>d r. dict_set d (method_name r) (field r)) [] results,
      mr_min = py_min v vs,
      mr_max = py_max v vs,
      mr_difference = py_max v vs - py_min v vs\<rparr>"

fun compare_results :: "method_result list \<Rightarrow> comparison" where
  "compare_results [] = ErrorReport"
| "compare_results [r] = ErrorReport"
| "compare_results (r1 # r2 # rs) =
     (let results = r1 # r2 # rs;
          total_consistent = (card (set (map total_words results)) = 1);
          unique_consistent = (card (set (map unique_words results)) = 1)
      in Report
           \<lparr>cr_status = (if total_consistent \<and> unique_consistent then StatusPass else StatusWarning),
            cr_consistent = (total_consistent \<and> unique_consistent),
            cr_total_words =
              metric results (total_words r1) (map total_words (r2 # rs)) total_words,
            cr_unique_words =
              metric results (unique_words r1) (map unique_words (r2 # rs)) unique_words\<rparr>)"

section \<open>The confidence classifier (verify.py, get_recommendation, get_verification_summary)\<close>

text \<open>
  The five messages of \<open>get_recommendation\<close>, in the order of the source (lines 196, 202,
  204, 206, 208). The first four start with the check mark, the last with the warning sign.
\<close>

datatype recommendation =
  FullyConsistent | SlightDifference | SmallDifference | NormalDifference | LargeDifference

text \<open>The two summaries of \<open>get_verification_summary\<close> and the one of the quick mode.\<close>

datatype summary = VerificationPassed | NeedsCheck | NotVerified

fun get_recommendation :: "comparison \<Rightarrow> py_error + recommendation" where
  "get_recommendation ErrorReport = Inl KeyError"
| "get_recommendation (Report c) =
     (if cr_status c = StatusPass then Inr FullyConsistent
      else let total_diff = mr_difference (cr_total_words c);
               unique_diff = mr_difference (cr_unique_words c)
           in if total_diff \<le> 2 \<and> unique_diff \<le> 2 then Inr SlightDifference
              else if total_diff \<le> 10 \<and> unique_diff \<le> 5 then Inr SmallDifference
              else if total_diff \<le> 50 then Inr NormalDifference
              else Inr LargeDifference)"

fun get_verification_summary :: "comparison \<Rightarrow> py_error + summary" where
  "get_verification_summary ErrorReport = Inl KeyError"
| "get_verification_summary (Report c) =
     (if cr_consistent c then Inr VerificationPassed
      else let total_diff = mr_difference (cr_total_words c);
               unique_diff = mr_difference (cr_unique_words c)
           in if total_diff \<le> 2 \<and> unique_diff \<le> 2 then Inr VerificationPassed
              else if total_diff \<le> 10 \<and> unique_diff \<le> 5 then Inr VerificationPassed
              else if total_diff \<le> 50 then Inr VerificationPassed
              else Inr NeedsCheck)"

section \<open>The cross-validator (verify.py, verify_text)\<close>

record final_stats =
  fs_total_words :: int
  fs_unique_words :: int
  fs_word_freq :: "(string \<times> int) list"
  fs_unique_word_list :: "string list"
  fs_selected_method :: method_label

record verification =
  v_results :: "method_result list"
  v_comparison :: comparison_report
  v_recommendation :: recommendation
  v_final_stats :: final_stats
  v_verified :: bool

text \<open>
  \<open>max(results, key=lambda r: r['total_words'])\<close>: the first result with the largest total;
  a later result replaces the best one only when its total is strictly larger.
\<close>

fun max_by_total :: "method_result \<Rightarrow> method_result list \<Rightarrow> method_result" where
  "max_by_total best [] = best"
| "max_by_total best (r # rs) =
     max_by_total (if total_words r > total_words best then r else best) rs"

text \<open>
  The true division of two integers. The quotient and the literal \<open>0.1\<close> of line 164 are
  taken as exact rationals; the source compares the doubles nearest to them, which gives the
  same answer for every total below \<open>10^15\<close>.
\<close>

definition py_truediv :: "int \<Rightarrow> int \<Rightarrow> py_error + rat" where
  "py_truediv a b = (if b = 0 then Inl ZeroDivisionError else Inr (of_int a / of_int b))"

text \<open>Lines 156 to 166: the choice of the result the final statistics are taken from.\<close>

definition select_best :: "comparison_report \<Rightarrow> method_result \<Rightarrow> method_result list \<Rightarrow> py_error + method_result" where
  "select_best c result1 others =
     (if \<not> cr_consistent c
      then (let max_total = py_max (total_words result1) (map total_words others);
                method1_total = total_words result1
            in if max_total > 0
               then (case py_truediv (max_total - method1_total) max_total of
                       Inl e \<Rightarrow> Inl e
                     | Inr q \<Rightarrow>
                         if q > 1 / 10 then Inr (max_by_total result1 others) else Inr result1)
               else Inr result1)
      else Inr result1)"

text \<open>Lines 168 to 174.\<close>

definition final_stats_of :: "method_result \<Rightarrow> final_stats" where
  "final_stats_of best_result =
     \<lparr>fs_total_words = total_words best_result,
      fs_unique_words = unique_words best_result,
      fs_word_freq = word_freq best_result,
      fs_unique_word_list = sort (keys (word_freq best_result)),
      fs_selected_method = method_name best_result\<rparr>"

definition verify_text :: "string \<Rightarrow> py_error + verification" where
  "verify_text text =
     (let result1 = count_words_method1 text;
          result2 = count_words_method2 text;
          result3 = count_words_method3 text;
          results = [result1, result2, result3];
          comparison = compare_results results
      in case get_recommendation comparison of
           Inl e \<Rightarrow> Inl e
         | Inr recommendation \<Rightarrow>
             (case comparison of
                ErrorReport \<Rightarrow> Inl KeyError
              | Report c \<Rightarrow>
                  (case select_best c result1 [result2, result3] of
                     Inl e \<Rightarrow> Inl e
                   | Inr best_result \<Rightarrow>
                       Inr \<lparr>v_results = results, v_comparison = c,
                            v_recommendation = recommendation,
                            v_final_stats = final_stats_of best_result,
                            v_verified = cr_consistent c\<rparr>)))"

section \<open>The analyser (word_analyzer.py, analyze_text)\<close>

datatype detail = Detail recommendation | NotEnabled

record stats =
  total_words_s :: int
  unique_words_s :: int
  unique_word_list_s :: "string list"
  word_freq_s :: "(string \<times> int) list"
  selected_method_s :: "method_label option"
  verified_s :: "bool option"
  verification_status_s :: summary
  verification_detail_s :: detail
  verification_comparison_s :: "comparison_report option"

definition analyze_text :: "string \<Rightarrow> bool \<Rightarrow> py_error + stats" where
  "analyze_text text enable_verification =
     (if enable_verification
      then (case verify_text text of
              Inl e \<Rightarrow> Inl e
            | Inr verification_report \<Rightarrow>
                (case get_verification_summary (Report (v_comparison verification_report)) of
                   Inl e \<Rightarrow> Inl e
                 | Inr status \<Rightarrow>
                     (let fs = v_final_stats verification_report
                      in Inr \<lparr>total_words_s = fs_total_words fs,
                              unique_words_s = fs_unique_words fs,
                              unique_word_list_s = fs_unique_word_list fs,
                              word_freq_s = fs_word_freq fs,
                              selected_method_s = Some (fs_selected_method fs),
                              verified_s = Some (v_verified verification_report),
                              verification_status_s = status,
                              verification_detail_s = Detail (v_recommendation verification_report),
                              verification_comparison_s = Some (v_comparison verification_report)\<rparr>)))
      else (let words = findall_bounded None text;
                words_lower = map lower words;
                total_words = int (length words_lower);
                word_freq = Counter words_lower;
                unique_words = int (length word_freq);
                unique_word_list = sort (keys word_freq)
            in Inr \<lparr>total_words_s = total_words,
                    unique_words_s = unique_words,
                    unique_word_list_s = unique_word_list,
                    word_freq_s = word_freq,
                    selected_method_s = None,
                    verified_s = None,
                    verification_status_s = NotVerified,
                    verification_detail_s = NotEnabled,
                    verification_comparison_s = None\<rparr>))"

section \<open>The statements of the specification\<close>

text \<open>
  The confidence label of a message: \<open>Pass\<close> for the messages that start with the check
  mark, \<open>Warn\<close> for the one that starts with the warning sign.
\<close>

datatype label = Pass | Warn

fun label_of :: "recommendation \<Rightarrow> label" where
  "label_of LargeDifference = Warn"
| "label_of _ = Pass"

text \<open>
  The table of the specification's confidence classifier, read from top to bottom, the first
  matching row winning; \<open>T\<close> is the spread of the totals and \<open>U\<close> the spread of the unique
  counts.
\<close>

definition classifier_table :: "bool \<Rightarrow> int \<Rightarrow> int \<Rightarrow> label \<times> recommendation" where
  "classifier_table consistent T U =
     (if consistent then (Pass, FullyConsistent)
      else if T \<le> 2 \<and> U \<le> 2 then (Pass, SlightDifference)
      else if T \<le> 10 \<and> U \<le> 5 then (Pass, SmallDifference)
      else if T \<le> 50 then (Pass, NormalDifference)
      else (Warn, LargeDifference))"

text \<open>
  The selection policy of the specification for the totals \<open>a\<close>, \<open>b\<close>, \<open>c\<close> of the strategies
  A, B, C: strategy A, unless the results are not consistent and \<open>a\<close> is more than 10% lower
  than the maximum; then the first strategy, in the order A, B, C, whose total is the maximum.
\<close>

definition policy_choice :: "bool \<Rightarrow> int \<Rightarrow> int \<Rightarrow> int \<Rightarrow> method_label" where
  "policy_choice consistent a b c =
     (let m = max a (max b c)
      in if \<not> consistent \<and> (of_int a :: rat) < of_int m - of_int m / 10
         then (if a = m then Method1 else if b = m then Method2 else Method3)
         else Method1)"

definition result_of :: "method_label \<Rightarrow> string \<Rightarrow> method_result" where
  "result_of l text =
     (case l of Method1 \<Rightarrow> count_words_method1 text
              | Method2 \<Rightarrow> count_words_method2 text
              | Method3 \<Rightarrow> count_words_method3 text)"

text \<open>
  The invariant of the specification's WordCount: the total is the sum of the frequencies,
  the unique count is the number of keys, the keys are pairwise different, every frequency
  is at least 1, and the unique list is the sorted list of the keys.
\<close>

definition well_formed :: "int \<Rightarrow> int \<Rightarrow> (string \<times> int) list \<Rightarrow> string list \<Rightarrow> bool" where
  "well_formed n_total n_unique freq unique_list =
     (n_total = sum_list (map snd freq) \<and> n_unique = int (length (keys freq)) \<and>
      distinct (keys freq) \<and> list_all (\<lambda>(w, n). 1 \<le> n) freq \<and>
      unique_list = sort (keys freq))"

definition well_formed_stats :: "final_stats \<Rightarrow> bool" where
  "well_formed_stats fs =
     well_formed (fs_total_words fs) (fs_unique_words fs) (fs_word_freq fs)
       (fs_unique_word_list fs)"

text \<open>
  The four fields of the quick mode's result that make up a WordCount, and the same four
  fields of the statistics a method's result gives.
\<close>

definition word_count_of_stats :: "stats \<Rightarrow> int \<times> int \<times> (string \<times> int) list \<times> string list" where
  "word_count_of_stats st =
     (total_words_s st, unique_words_s st, word_freq_s st, unique_word_list_s st)"

definition word_count_of_result :: "method_result \<Rightarrow> int \<times> int \<times> (string \<times> int) list \<times> string list" where
  "word_count_of_result r =
     (let fs = final_stats_of r
      in (fs_total_words fs, fs_unique_words fs, fs_word_freq fs, fs_unique_word_list fs))"

text \<open>The quick mode of \<open>analyze_text\<close>, reduced to its WordCount.\<close>

definition quick_count :: "string \<Rightarrow> py_error + int \<times> int \<times> (string \<times> int) list \<times> string list" where
  "quick_count text =
     (case analyze_text text False of Inl e \<Rightarrow> Inl e | Inr st \<Rightarrow> Inr (word_count_of_stats st))"

text \<open>
  No ASCII letter of the text stands next to a word character that is not an ASCII letter
  (a digit, the underscore, a letter beyond ASCII).
\<close>

definition other_word :: "char \<Rightarrow> bool" where
  "other_word c = (re_word c \<and> \<not> ascii_letter c)"

fun letters_apart :: "string \<Rightarrow> bool" where
  "letters_apart (a # b # cs) =
     (\<not> (ascii_letter a \<and> other_word b) \<and> \<not> (other_word a \<and> ascii_letter b) \<and>
      letters_apart (b # cs))"
| "letters_apart _ = True"

text \<open>A plain word: one ASCII letter or more, and nothing else.\<close>

definition plain_word :: "string \<Rightarrow> bool" where
  "plain_word w = (w \<noteq> [] \<and> list_all ascii_letter w)"

text \<open>
  A word as it is written in the text: a plain word, or a plain word followed by the
  possessive \<open>'s\<close>.
\<close>

fun written :: "string \<times> bool \<Rightarrow> string" where
  "written (w, possessive) = (if possessive then w @ [CHR 0x27, CHR ''s''] else w)"

text \<open>Neither the written word nor its base word is, in lower case, a key of the table.\<close>

definition off_table :: "string \<times> bool \<Rightarrow> bool" where
  "off_table item =
     (lower (written item) \<notin> set (keys STANDARD_CONTRACTIONS) \<and>
      lower (fst item) \<notin> set (keys STANDARD_CONTRACTIONS))"

text \<open>
  What the keys of the table have in common: three characters or more, a letter at both
  ends, no space, no upper-case letter.
\<close>

definition key_shape :: "string \<Rightarrow> bool" where
  "key_shape p =
     (3 \<le> length p \<and> ascii_letter (hd p) \<and> ascii_letter (last p) \<and>
      CHR '' '' \<notin> set p \<and> map lower_char p = p)"

text \<open>The characters a key of the table is made of: ASCII letters and the apostrophe.\<close>

definition key_letters :: "string \<Rightarrow> bool" where
  "key_letters p = list_all (\<lambda>c. ascii_letter c \<or> c = CHR 0x27) p"

text \<open>
  A character that ends a word for every scan of strategy A: neither a word character nor
  the apostrophe (a space, a comma, a full stop).
\<close>

definition barrier :: "char \<Rightarrow> bool" where
  "barrier c = (\<not> re_word c \<and> c \<noteq> CHR 0x27)"

text \<open>
  A word stands alone between the text \<open>pre\<close> before it and the text \<open>post\<close> behind it
  when each of them is empty or has such a character next to the word.
\<close>

definition standalone :: "string \<Rightarrow> string \<Rightarrow> bool" where
  "standalone pre post = ((pre = [] \<or> barrier (last pre)) \<and> (post = [] \<or> barrier (hd post)))"

section \<open>Evaluation on concrete texts\<close>

text \<open>
  The character classes at the ASCII characters the examples use, and the scans unfolded by
  one step with the tests in the order the regular-expression engine makes them.
\<close>

lemma re_word_chars:
  "re_word (CHR ''a'')" "re_word (CHR ''b'')" "re_word (CHR ''c'')"
  "re_word (CHR ''d'')" "re_word (CHR ''e'')" "re_word (CHR ''f'')"
  "re_word (CHR ''g'')" "re_word (CHR ''h'')" "re_word (CHR ''i'')"
  "re_word (CHR ''j'')" "re_word (CHR ''k'')" "re_word (CHR ''l'')"
  "re_word (CHR ''m'')" "re_word (CHR ''n'')" "re_word (CHR ''o'')"
  "re_word (CHR ''p'')" "re_word (CHR ''q'')" "re_word (CHR ''r'')"
  "re_word (CHR ''s'')" "re_word (CHR ''t'')" "re_word (CHR ''u'')"
  "re_word (CHR ''v'')" "re_word (CHR ''w'')" "re_word (CHR ''x'')"
  "re_word (CHR ''y'')" "re_word (CHR ''z'')" "re_word (CHR ''A'')"
  "re_word (CHR ''B'')" "re_word (CHR ''C'')" "re_word (CHR ''D'')"
  "re_word (CHR ''E'')" "re_word (CHR ''F'')" "re_word (CHR ''G'')"
  "re_word (CHR ''H'')" "re_word (CHR ''I'')" "re_word (CHR ''J'')"
  "re_word (CHR ''K'')" "re_word (CHR ''L'')" "re_word (CHR ''M'')"
  "re_word (CHR ''N'')" "re_word (CHR ''O'')" "re_word (CHR ''P'')"
  "re_word (CHR ''Q'')" "re_word (CHR ''R'')" "re_word (CHR ''S'')"
  "re_word (CHR ''T'')" "re_word (CHR ''U'')" "re_word (CHR ''V'')"
  "re_word (CHR ''W'')" "re_word (CHR ''X'')" "re_word (CHR ''Y'')"
  "re_word (CHR ''Z'')" "re_word (CHR ''0'')" "re_word (CHR ''1'')"
  "re_word (CHR ''2'')" "re_word (CHR ''3'')" "re_word (CHR ''4'')"
  "re_word (CHR ''5'')" "re_word (CHR ''6'')" "re_word (CHR ''7'')"
  "re_word (CHR ''8'')" "re_word (CHR ''9'')" "\<not> re_word (CHR '' '')"
  "\<not> re_word (CHR 0x27)" "\<not> re_word (CHR ''.'')" "\<not> re_word (CHR '','')"
  "\<not> re_word (CHR ''!'')" "\<not> re_word (CHR ''?'')" "\<not> re_word (CHR ''-'')"
  "re_word (CHR ''_'')"
  by (simp_all add: re_word_def isalpha_def re_digit_def code_point_def)

lemma ascii_letter_chars:
  "ascii_letter (CHR ''a'')" "ascii_letter (CHR ''b'')" "ascii_letter (CHR ''c'')"
  "ascii_letter (CHR ''d'')" "ascii_letter (CHR ''e'')" "ascii_letter (CHR ''f'')"
  "ascii_letter (CHR ''g'')" "ascii_letter (CHR ''h'')" "ascii_letter (CHR ''i'')"
  "ascii_letter (CHR ''j'')" "ascii_letter (CHR ''k'')" "ascii_letter (CHR ''l'')"
  "ascii_letter (CHR ''m'')" "ascii_letter (CHR ''n'')" "ascii_letter (CHR ''o'')"
  "ascii_letter (CHR ''p'')" "ascii_letter (CHR ''q'')" "ascii_letter (CHR ''r'')"
  "ascii_letter (CHR ''s'')" "ascii_letter (CHR ''t'')" "ascii_letter (CHR ''u'')"
  "ascii_letter (CHR ''v'')" "ascii_letter (CHR ''w'')" "ascii_letter (CHR ''x'')"
  "ascii_letter (CHR ''y'')" "ascii_letter (CHR ''z'')" "ascii_letter (CHR ''A'')"
  "ascii_letter (CHR ''B'')" "ascii_letter (CHR ''C'')" "ascii_letter (CHR ''D'')"
  "ascii_letter (CHR ''E'')" "ascii_letter (CHR ''F'')" "ascii_letter (CHR ''G'')"
  "ascii_letter (CHR ''H'')" "ascii_letter (CHR ''I'')" "ascii_letter (CHR ''J'')"
  "ascii_letter (CHR ''K'')" "ascii_letter (CHR ''L'')" "ascii_letter (CHR ''M'')"
  "ascii_letter (CHR ''N'')" "ascii_letter (CHR ''O'')" "ascii_letter (CHR ''P'')"
  "ascii_letter (CHR ''Q'')" "ascii_letter (CHR ''R'')" "ascii_letter (CHR ''S'')"
  "ascii_letter (CHR ''T'')" "ascii_letter (CHR ''U'')" "ascii_letter (CHR ''V'')"
  "ascii_letter (CHR ''W'')" "ascii_letter (CHR ''X'')" "ascii_letter (CHR ''Y'')"
  "ascii_letter (CHR ''Z'')" "\<not> ascii_letter (CHR ''0'')" "\<not> ascii_letter (CHR ''1'')"
  "\<not> ascii_letter (CHR ''2'')" "\<not> ascii_letter (CHR ''3'')" "\<not> ascii_letter (CHR ''4'')"
  "\<not> ascii_letter (CHR ''5'')" "\<not> ascii_letter (CHR ''6'')" "\<not> ascii_letter (CHR ''7'')"
  "\<not> ascii_letter (CHR ''8'')" "\<not> ascii_letter (CHR ''9'')" "\<not> ascii_letter (CHR '' '')"
  "\<not> ascii_letter (CHR 0x27)" "\<not> ascii_letter (CHR ''.'')" "\<not> ascii_letter (CHR '','')"
  "\<not> ascii_letter (CHR ''!'')" "\<not> ascii_letter (CHR ''?'')" "\<not> ascii_letter (CHR ''-'')"
  "\<not> ascii_letter (CHR ''_'')"
  by (simp_all add: ascii_letter_def code_point_def)

lemma isalpha_chars:
  "isalpha (CHR ''a'')" "isalpha (CHR ''b'')" "isalpha (CHR ''c'')"
  "isalpha (CHR ''d'')" "isalpha (CHR ''e'')" "isalpha (CHR ''f'')"
  "isalpha (CHR ''g'')" "isalpha (CHR ''h'')" "isalpha (CHR ''i'')"
  "isalpha (CHR ''j'')" "isalpha (CHR ''k'')" "isalpha (CHR ''l'')"
  "isalpha (CHR ''m'')" "isalpha (CHR ''n'')" "isalpha (CHR ''o'')"
  "isalpha (CHR ''p'')" "isalpha (CHR ''q'')" "isalpha (CHR ''r'')"
  "isalpha (CHR ''s'')" "isalpha (CHR ''t'')" "isalpha (CHR ''u'')"
  "isalpha (CHR ''v'')" "isalpha (CHR ''w'')" "isalpha (CHR ''x'')"
  "isalpha (CHR ''y'')" "isalpha (CHR ''z'')" "isalpha (CHR ''A'')"
  "isalpha (CHR ''B'')" "isalpha (CHR ''C'')" "isalpha (CHR ''D'')"
  "isalpha (CHR ''E'')" "isalpha (CHR ''F'')" "isalpha (CHR ''G'')"
  "isalpha (CHR ''H'')" "isalpha (CHR ''I'')" "isalpha (CHR ''J'')"
  "isalpha (CHR ''K'')" "isalpha (CHR ''L'')" "isalpha (CHR ''M'')"
  "isalpha (CHR ''N'')" "isalpha (CHR ''O'')" "isalpha (CHR ''P'')"
  "isalpha (CHR ''Q'')" "isalpha (CHR ''R'')" "isalpha (CHR ''S'')"
  "isalpha (CHR ''T'')" "isalpha (CHR ''U'')" "isalpha (CHR ''V'')"
  "isalpha (CHR ''W'')" "isalpha (CHR ''X'')" "isalpha (CHR ''Y'')"
  "isalpha (CHR ''Z'')" "\<not> isalpha (CHR ''0'')" "\<not> isalpha (CHR ''1'')"
  "\<not> isalpha (CHR ''2'')" "\<not> isalpha (CHR ''3'')" "\<not> isalpha (CHR ''4'')"
  "\<not> isalpha (CHR ''5'')" "\<not> isalpha (CHR ''6'')" "\<not> isalpha (CHR ''7'')"
  "\<not> isalpha (CHR ''8'')" "\<not> isalpha (CHR ''9'')" "\<not> isalpha (CHR '' '')"
  "\<not> isalpha (CHR 0x27)" "\<not> isalpha (CHR ''.'')" "\<not> isalpha (CHR '','')"
  "\<not> isalpha (CHR ''!'')" "\<not> isalpha (CHR ''?'')" "\<not> isalpha (CHR ''-'')"
  "\<not> isalpha (CHR ''_'')"
  by (simp_all add: isalpha_def code_point_def)

lemma re_digit_chars:
  "\<not> re_digit (CHR ''a'')" "\<not> re_digit (CHR ''b'')" "\<not> re_digit (CHR ''c'')"
  "\<not> re_digit (CHR ''d'')" "\<not> re_digit (CHR ''e'')" "\<not> re_digit (CHR ''f'')"
  "\<not> re_digit (CHR ''g'')" "\<not> re_digit (CHR ''h'')" "\<not> re_digit (CHR ''i'')"
  "\<not> re_digit (CHR ''j'')" "\<not> re_digit (CHR ''k'')" "\<not> re_digit (CHR ''l'')"
  "\<not> re_digit (CHR ''m'')" "\<not> re_digit (CHR ''n'')" "\<not> re_digit (CHR ''o'')"
  "\<not> re_digit (CHR ''p'')" "\<not> re_digit (CHR ''q'')" "\<not> re_digit (CHR ''r'')"
  "\<not> re_digit (CHR ''s'')" "\<not> re_digit (CHR ''t'')" "\<not> re_digit (CHR ''u'')"
  "\<not> re_digit (CHR ''v'')" "\<not> re_digit (CHR ''w'')" "\<not> re_digit (CHR ''x'')"
  "\<not> re_digit (CHR ''y'')" "\<not> re_digit (CHR ''z'')" "\<not> re_digit (CHR ''A'')"
  "\<not> re_digit (CHR ''B'')" "\<not> re_digit (CHR ''C'')" "\<not> re_digit (CHR ''D'')"
  "\<not> re_digit (CHR ''E'')" "\<not> re_digit (CHR ''F'')" "\<not> re_digit (CHR ''G'')"
  "\<not> re_digit (CHR ''H'')" "\<not> re_digit (CHR ''I'')" "\<not> re_digit (CHR ''J'')"
  "\<not> re_digit (CHR ''K'')" "\<not> re_digit (CHR ''L'')" "\<not> re_digit (CHR ''M'')"
  "\<not> re_digit (CHR ''N'')" "\<not> re_digit (CHR ''O'')" "\<not> re_digit (CHR ''P'')"
  "\<not> re_digit (CHR ''Q'')" "\<not> re_digit (CHR ''R'')" "\<not> re_digit (CHR ''S'')"
  "\<not> re_digit (CHR ''T'')" "\<not> re_digit (CHR ''U'')" "\<not> re_digit (CHR ''V'')"
  "\<not> re_digit (CHR ''W'')" "\<not> re_digit (CHR ''X'')" "\<not> re_digit (CHR ''Y'')"
  "\<not> re_digit (CHR ''Z'')" "re_digit (CHR ''0'')" "re_digit (CHR ''1'')"
  "re_digit (CHR ''2'')" "re_digit (CHR ''3'')" "re_digit (CHR ''4'')"
  "re_digit (CHR ''5'')" "re_digit (CHR ''6'')" "re_digit (CHR ''7'')"
  "re_digit (CHR ''8'')" "re_digit (CHR ''9'')" "\<not> re_digit (CHR '' '')"
  "\<not> re_digit (CHR 0x27)" "\<not> re_digit (CHR ''.'')" "\<not> re_digit (CHR '','')"
  "\<not> re_digit (CHR ''!'')" "\<not> re_digit (CHR ''?'')" "\<not> re_digit (CHR ''-'')"
  "\<not> re_digit (CHR ''_'')"
  by (simp_all add: re_digit_def code_point_def)

lemma isspace_chars:
  "\<not> isspace (CHR ''a'')" "\<not> isspace (CHR ''b'')" "\<not> isspace (CHR ''c'')"
  "\<not> isspace (CHR ''d'')" "\<not> isspace (CHR ''e'')" "\<not> isspace (CHR ''f'')"
  "\<not> isspace (CHR ''g'')" "\<not> isspace (CHR ''h'')" "\<not> isspace (CHR ''i'')"
  "\<not> isspace (CHR ''j'')" "\<not> isspace (CHR ''k'')" "\<not> isspace (CHR ''l'')"
  "\<not> isspace (CHR ''m'')" "\<not> isspace (CHR ''n'')" "\<not> isspace (CHR ''o'')"
  "\<not> isspace (CHR ''p'')" "\<not> isspace (CHR ''q'')" "\<not> isspace (CHR ''r'')"
  "\<not> isspace (CHR ''s'')" "\<not> isspace (CHR ''t'')" "\<not> isspace (CHR ''u'')"
  "\<not> isspace (CHR ''v'')" "\<not> isspace (CHR ''w'')" "\<not> isspace (CHR ''x'')"
  "\<not> isspace (CHR ''y'')" "\<not> isspace (CHR ''z'')" "\<not> isspace (CHR ''A'')"
  "\<not> isspace (CHR ''B'')" "\<not> isspace (CHR ''C'')" "\<not> isspace (CHR ''D'')"
  "\<not> isspace (CHR ''E'')" "\<not> isspace (CHR ''F'')" "\<not> isspace (CHR ''G'')"
  "\<not> isspace (CHR ''H'')" "\<not> isspace (CHR ''I'')" "\<not> isspace (CHR ''J'')"
  "\<not> isspace (CHR ''K'')" "\<not> isspace (CHR ''L'')" "\<not> isspace (CHR ''M'')"
  "\<not> isspace (CHR ''N'')" "\<not> isspace (CHR ''O'')" "\<not> isspace (CHR ''P'')"
  "\<not> isspace (CHR ''Q'')" "\<not> isspace (CHR ''R'')" "\<not> isspace (CHR ''S'')"
  "\<not> isspace (CHR ''T'')" "\<not> isspace (CHR ''U'')" "\<not> isspace (CHR ''V'')"
  "\<not> isspace (CHR ''W'')" "\<not> isspace (CHR ''X'')" "\<not> isspace (CHR ''Y'')"
  "\<not> isspace (CHR ''Z'')" "\<not> isspace (CHR ''0'')" "\<not> isspace (CHR ''1'')"
  "\<not> isspace (CHR ''2'')" "\<not> isspace (CHR ''3'')" "\<not> isspace (CHR ''4'')"
  "\<not> isspace (CHR ''5'')" "\<not> isspace (CHR ''6'')" "\<not> isspace (CHR ''7'')"
  "\<not> isspace (CHR ''8'')" "\<not> isspace (CHR ''9'')" "isspace (CHR '' '')"
  "\<not> isspace (CHR 0x27)" "\<not> isspace (CHR ''.'')" "\<not> isspace (CHR '','')"
  "\<not> isspace (CHR ''!'')" "\<not> isspace (CHR ''?'')" "\<not> isspace (CHR ''-'')"
  "\<not> isspace (CHR ''_'')"
  by (simp_all add: isspace_def code_point_def)

lemma strip_chars_chars:
  "CHR ''a'' \<notin> set strip_chars" "CHR ''b'' \<notin> set strip_chars" "CHR ''c'' \<notin> set strip_chars"
  "CHR ''d'' \<notin> set strip_chars" "CHR ''e'' \<notin> set strip_chars" "CHR ''f'' \<notin> set strip_chars"
  "CHR ''g'' \<notin> set strip_chars" "CHR ''h'' \<notin> set strip_chars" "CHR ''i'' \<notin> set strip_chars"
  "CHR ''j'' \<notin> set strip_chars" "CHR ''k'' \<notin> set strip_chars" "CHR ''l'' \<notin> set strip_chars"
  "CHR ''m'' \<notin> set strip_chars" "CHR ''n'' \<notin> set strip_chars" "CHR ''o'' \<notin> set strip_chars"
  "CHR ''p'' \<notin> set strip_chars" "CHR ''q'' \<notin> set strip_chars" "CHR ''r'' \<notin> set strip_chars"
  "CHR ''s'' \<notin> set strip_chars" "CHR ''t'' \<notin> set strip_chars" "CHR ''u'' \<notin> set strip_chars"
  "CHR ''v'' \<notin> set strip_chars" "CHR ''w'' \<notin> set strip_chars" "CHR ''x'' \<notin> set strip_chars"
  "CHR ''y'' \<notin> set strip_chars" "CHR ''z'' \<notin> set strip_chars" "CHR ''A'' \<notin> set strip_chars"
  "CHR ''B'' \<notin> set strip_chars" "CHR ''C'' \<notin> set strip_chars" "CHR ''D'' \<notin> set strip_chars"
  "CHR ''E'' \<notin> set strip_chars" "CHR ''F'' \<notin> set strip_chars" "CHR ''G'' \<notin> set strip_chars"
  "CHR ''H'' \<notin> set strip_chars" "CHR ''I'' \<notin> set strip_chars" "CHR ''J'' \<notin> set strip_chars"
  "CHR ''K'' \<notin> set strip_chars" "CHR ''L'' \<notin> set strip_chars" "CHR ''M'' \<notin> set strip_chars"
  "CHR ''N'' \<notin> set strip_chars" "CHR ''O'' \<notin> set strip_chars" "CHR ''P'' \<notin> set strip_chars"
  "CHR ''Q'' \<notin> set strip_chars" "CHR ''R'' \<notin> set strip_chars" "CHR ''S'' \<notin> set strip_chars"
  "CHR ''T'' \<notin> set strip_chars" "CHR ''U'' \<notin> set strip_chars" "CHR ''V'' \<notin> set strip_chars"
  "CHR ''W'' \<notin> set strip_chars" "CHR ''X'' \<notin> set strip_chars" "CHR ''Y'' \<notin> set strip_chars"
  "CHR ''Z'' \<notin> set strip_chars" "CHR ''0'' \<in> set strip_chars" "CHR ''1'' \<in> set strip_chars"
  "CHR ''2'' \<in> set strip_chars" "CHR ''3'' \<in> set strip_chars" "CHR ''4'' \<in> set strip_chars"
  "CHR ''5'' \<in> set strip_chars" "CHR ''6'' \<in> set strip_chars" "CHR ''7'' \<in> set strip_chars"
  "CHR ''8'' \<in> set strip_chars" "CHR ''9'' \<in> set strip_chars" "CHR '' '' \<notin> set strip_chars"
  "CHR 0x27 \<in> set strip_chars" "CHR ''.'' \<in> set strip_chars" "CHR '','' \<in> set strip_chars"
  "CHR ''!'' \<in> set strip_chars" "CHR ''?'' \<in> set strip_chars" "CHR ''-'' \<in> set strip_chars"
  "CHR ''_'' \<notin> set strip_chars"
  by (simp_all add: strip_chars_def)

lemma lower_char_chars:
  "lower_char (CHR ''a'') = CHR ''a''" "lower_char (CHR ''b'') = CHR ''b''"
  "lower_char (CHR ''c'') = CHR ''c''" "lower_char (CHR ''d'') = CHR ''d''"
  "lower_char (CHR ''e'') = CHR ''e''" "lower_char (CHR ''f'') = CHR ''f''"
  "lower_char (CHR ''g'') = CHR ''g''" "lower_char (CHR ''h'') = CHR ''h''"
  "lower_char (CHR ''i'') = CHR ''i''" "lower_char (CHR ''j'') = CHR ''j''"
  "lower_char (CHR ''k'') = CHR ''k''" "lower_char (CHR ''l'') = CHR ''l''"
  "lower_char (CHR ''m'') = CHR ''m''" "lower_char (CHR ''n'') = CHR ''n''"
  "lower_char (CHR ''o'') = CHR ''o''" "lower_char (CHR ''p'') = CHR ''p''"
  "lower_char (CHR ''q'') = CHR ''q''" "lower_char (CHR ''r'') = CHR ''r''"
  "lower_char (CHR ''s'') = CHR ''s''" "lower_char (CHR ''t'') = CHR ''t''"
  "lower_char (CHR ''u'') = CHR ''u''" "lower_char (CHR ''v'') = CHR ''v''"
  "lower_char (CHR ''w'') = CHR ''w''" "lower_char (CHR ''x'') = CHR ''x''"
  "lower_char (CHR ''y'') = CHR ''y''" "lower_char (CHR ''z'') = CHR ''z''"
  "lower_char (CHR ''A'') = CHR ''a''" "lower_char (CHR ''B'') = CHR ''b''"
  "lower_char (CHR ''C'') = CHR ''c''" "lower_char (CHR ''D'') = CHR ''d''"
  "lower_char (CHR ''E'') = CHR ''e''" "lower_char (CHR ''F'') = CHR ''f''"
  "lower_char (CHR ''G'') = CHR ''g''" "lower_char (CHR ''H'') = CHR ''h''"
  "lower_char (CHR ''I'') = CHR ''i''" "lower_char (CHR ''J'') = CHR ''j''"
  "lower_char (CHR ''K'') = CHR ''k''" "lower_char (CHR ''L'') = CHR ''l''"
  "lower_char (CHR ''M'') = CHR ''m''" "lower_char (CHR ''N'') = CHR ''n''"
  "lower_char (CHR ''O'') = CHR ''o''" "lower_char (CHR ''P'') = CHR ''p''"
  "lower_char (CHR ''Q'') = CHR ''q''" "lower_char (CHR ''R'') = CHR ''r''"
  "lower_char (CHR ''S'') = CHR ''s''" "lower_char (CHR ''T'') = CHR ''t''"
  "lower_char (CHR ''U'') = CHR ''u''" "lower_char (CHR ''V'') = CHR ''v''"
  "lower_char (CHR ''W'') = CHR ''w''" "lower_char (CHR ''X'') = CHR ''x''"
  "lower_char (CHR ''Y'') = CHR ''y''" "lower_char (CHR ''Z'') = CHR ''z''"
  "lower_char (CHR ''0'') = CHR ''0''" "lower_char (CHR ''1'') = CHR ''1''"
  "lower_char (CHR ''2'') = CHR ''2''" "lower_char (CHR ''3'') = CHR ''3''"
  "lower_char (CHR ''4'') = CHR ''4''" "lower_char (CHR ''5'') = CHR ''5''"
  "lower_char (CHR ''6'') = CHR ''6''" "lower_char (CHR ''7'') = CHR ''7''"
  "lower_char (CHR ''8'') = CHR ''8''" "lower_char (CHR ''9'') = CHR ''9''"
  "lower_char (CHR '' '') = CHR '' ''" "lower_char (CHR 0x27) = CHR 0x27"
  "lower_char (CHR ''.'') = CHR ''.''" "lower_char (CHR '','') = CHR '',''"
  "lower_char (CHR ''!'') = CHR ''!''" "lower_char (CHR ''?'') = CHR ''?''"
  "lower_char (CHR ''-'') = CHR ''-''" "lower_char (CHR ''_'') = CHR ''_''"
  by (simp_all add: lower_char_def code_point_def char_of_def bit_Suc_0_iff)

lemma findall_bounded_step:
  "findall_bounded prev (c # cs) =
     (if at_boundary prev (c # cs)
      then (if ascii_letter c
            then (if at_boundary (Some (last (c # takeWhile ascii_letter cs))) (dropWhile ascii_letter cs)
                  then (c # takeWhile ascii_letter cs) #
                       findall_bounded (Some (last (c # takeWhile ascii_letter cs))) (dropWhile ascii_letter cs)
                  else findall_bounded (Some c) cs)
            else findall_bounded (Some c) cs)
      else findall_bounded (Some c) cs)"
  by (simp add: Let_def)

lemma findall_alpha_step:
  "findall_alpha (c # cs) =
     (if ascii_letter c
      then (c # takeWhile ascii_letter cs) # findall_alpha (dropWhile ascii_letter cs)
      else findall_alpha cs)"
  by (simp add: Let_def)

lemma match_ci_step:
  "match_ci (p # ps) (c # cs) = (if lower_char p = lower_char c then match_ci ps cs else False)"
  by simp

lemma sub_contraction_step:
  "sub_contraction pat repl prev (c # cs) =
     (if at_boundary prev (c # cs)
      then (if match_ci pat (c # cs)
            then (if pat \<noteq> [] \<and>
                     at_boundary (Some (last (take (length pat) (c # cs)))) (drop (length pat) (c # cs))
                  then repl @ sub_contraction pat repl (Some (last (take (length pat) (c # cs))))
                                (drop (length pat) (c # cs))
                  else c # sub_contraction pat repl (Some c) cs)
            else c # sub_contraction pat repl (Some c) cs)
      else c # sub_contraction pat repl (Some c) cs)"
  by (simp add: Let_def)

lemma sub_possessive_step:
  "sub_possessive prev (c # cs) =
     (if at_boundary prev (c # cs)
      then (if ascii_letter c
            then (if take 2 (dropWhile ascii_letter cs) = [CHR 0x27, CHR ''s''] \<and>
                     at_boundary (Some (CHR ''s'')) (drop 2 (dropWhile ascii_letter cs))
                  then (c # takeWhile ascii_letter cs) @
                       sub_possessive (Some (CHR ''s'')) (drop 2 (dropWhile ascii_letter cs))
                  else c # sub_possessive (Some c) cs)
            else c # sub_possessive (Some c) cs)
      else c # sub_possessive (Some c) cs)"
  by (simp add: Let_def)

lemma method2_words_step:
  "method2_words (token # tokens) =
     (if list_ex isalpha (strip token)
      then lower (filter isalpha (strip token)) # method2_words tokens
      else method2_words tokens)"
  by (auto simp: Let_def list_ex_iff filter_empty_conv)

lemma takeWhile_step:
  "takeWhile P (x # xs) = (if P x then x # takeWhile P xs else [])"
  by simp

lemma dropWhile_step:
  "dropWhile P (x # xs) = (if P x then dropWhile P xs else x # xs)"
  by simp

lemma filter_step:
  "filter P (x # xs) = (if P x then x # filter P xs else filter P xs)"
  by simp

lemma list_ex_step:
  "list_ex P (x # xs) = (if P x then True else list_ex P xs)"
  by simp

lemmas eval_rules =
  re_word_chars ascii_letter_chars isalpha_chars re_digit_chars isspace_chars
  strip_chars_chars lower_char_chars
  findall_bounded.simps(1) findall_bounded_step findall_alpha.simps(1) findall_alpha_step
  remove_digit_runs.simps match_ci.simps(1,2) match_ci_step
  sub_contraction.simps(1) sub_contraction_step sub_possessive.simps(1) sub_possessive_step
  split_whitespace.simps method2_words.simps(1) method2_words_step strip_def lower_def
  at_boundary_def word_opt.simps next_char.simps join_spaces.simps
  takeWhile.simps(1) takeWhile_step dropWhile.simps(1) dropWhile_step
  filter.simps(1) filter_step list_ex_Nil_iff list_ex_step
  if_True if_False simp_thms not_True_eq_False not_False_eq_True
  char.inject list.inject list.distinct option.inject option.distinct
  take_Suc_Cons take_0 take.simps(1) drop_Suc_Cons drop_0 drop.simps(1)
  list.size add_0 add_Suc_right add_0_right numeral_2_eq_2 One_nat_def zero_less_Suc
  last.simps append_Cons append_Nil rev.simps list.map
  foldl_Cons foldl_Nil prod.case

declare findall_bounded.simps(2) [simp del] findall_alpha.simps(2) [simp del]
  sub_contraction.simps(2) [simp del] sub_possessive.simps(2) [simp del]
  remove_digit_runs.simps(2) [simp del] split_whitespace.simps(2) [simp del]
  method2_words.simps(2) [simp del]

lemmas method1_eval =
  eval_rules extract_words_with_smart_contractions_def expand_contractions_def
  expand_standard_def STANDARD_CONTRACTIONS_def Let_def

section \<open>Strategy A on the examples of the specification\<close>

lemma expand_standard_cat: "expand_standard ''It's a cat'' = ''it is a cat''"
  by (simp only: method1_eval cong: if_weak_cong)

lemma words_cat:
  "extract_words_with_smart_contractions ''It's a cat'' = [''it'', ''is'', ''a'', ''cat'']"
  by (simp only: method1_eval cong: if_weak_cong)

lemma possessive_cat: "sub_possessive None ''It's a cat'' = ''It a cat''"
  by (simp only: eval_rules cong: if_weak_cong)

lemma expand_standard_uncle: "expand_standard ''Uncle's story'' = ''Uncle's story''"
  by (simp only: method1_eval cong: if_weak_cong)

lemma possessive_uncle: "sub_possessive None ''Uncle's story'' = ''Uncle story''"
  by (simp only: eval_rules cong: if_weak_cong)

lemma words_uncle: "map lower (findall_bounded None ''Uncle story'') = [''uncle'', ''story'']"
  by (simp only: eval_rules cong: if_weak_cong)

lemma expand_standard_sally:
  "expand_standard ''Don't worry, Sally's coat is here.'' = ''do not worry, Sally's coat is here.''"
  by (simp only: method1_eval cong: if_weak_cong)

lemma possessive_sally:
  "sub_possessive None ''do not worry, Sally's coat is here.'' = ''do not worry, Sally coat is here.''"
  by (simp only: eval_rules cong: if_weak_cong)

lemma words_sally:
  "map lower (findall_bounded None ''do not worry, Sally coat is here.'') =
     [''do'', ''not'', ''worry'', ''sally'', ''coat'', ''is'', ''here'']"
  by (simp only: eval_rules cong: if_weak_cong)

lemma Counter_sally:
  "Counter [''do'', ''not'', ''worry'', ''sally'', ''coat'', ''is'', ''here''] =
     [(''do'', 1), (''not'', 1), (''worry'', 1), (''sally'', 1), (''coat'', 1), (''is'', 1),
      (''here'', 1)]"
  by (simp add: Counter_def)

section \<open>Strategies A and B on a contraction\<close>

lemma method2_dont: "method2_words (split_whitespace ''don't'') = [''dont'']"
  by (simp only: eval_rules cong: if_weak_cong)

lemma method1_dont: "extract_words_with_smart_contractions ''don't'' = [''do'', ''not'']"
  by (simp only: method1_eval cong: if_weak_cong)

section \<open>Every word count is well formed\<close>

lemma keys_dict_set:
  "keys (dict_set d k v) = (if k \<in> set (keys d) then keys d else keys d @ [k])"
  by (induction d) (force simp: keys_def)+

lemma sum_dict_set:
  "sum_list (map snd (dict_set d k (dict_get d k 0 + 1))) = sum_list (map snd d) + (1::int)"
  by (induction d) auto

lemma positive_dict_set:
  "list_all (\<lambda>(w, n). (1::int) \<le> n) d \<Longrightarrow>
   list_all (\<lambda>(w, n). 1 \<le> n) (dict_set d k (dict_get d k 0 + 1))"
  by (induction d) auto

text \<open>The loop of \<open>Counter\<close>, from any dictionary with distinct keys and positive counts.\<close>

lemma foldl_counter:
  "distinct (keys d) \<Longrightarrow> list_all (\<lambda>(w, n). 1 \<le> n) d \<Longrightarrow>
   distinct (keys (foldl (\<lambda>d elem. dict_set d elem (dict_get d elem 0 + 1)) d elems)) \<and>
   list_all (\<lambda>(w, n). 1 \<le> n) (foldl (\<lambda>d elem. dict_set d elem (dict_get d elem 0 + 1)) d elems) \<and>
   sum_list (map snd (foldl (\<lambda>d elem. dict_set d elem (dict_get d elem 0 + 1)) d elems)) =
     sum_list (map snd d) + int (length elems) \<and>
   set (keys (foldl (\<lambda>d elem. dict_set d elem (dict_get d elem 0 + 1)) d elems)) =
     set (keys d) \<union> set elems"
proof (induction elems arbitrary: d)
  case Nil
  then show ?case by simp
next
  case (Cons e es)
  have "distinct (keys (dict_set d e (dict_get d e 0 + 1)))"
    using Cons.prems by (simp add: keys_dict_set)
  moreover have "list_all (\<lambda>(w, n). 1 \<le> n) (dict_set d e (dict_get d e 0 + 1))"
    using Cons.prems by (simp add: positive_dict_set)
  ultimately show ?case
    using Cons.IH [of "dict_set d e (dict_get d e 0 + 1)"]
    by (auto simp: sum_dict_set keys_dict_set)
qed

lemma Counter_facts:
  "distinct (keys (Counter ws))" "list_all (\<lambda>(w, n). 1 \<le> n) (Counter ws)"
  "sum_list (map snd (Counter ws)) = int (length ws)" "set (keys (Counter ws)) = set ws"
  using foldl_counter [of "[]" ws] by (simp_all add: Counter_def keys_def)

lemma well_formed_make_result: "well_formed_stats (final_stats_of (make_result l ws))"
  by (simp add: well_formed_stats_def final_stats_of_def make_result_def well_formed_def
        Let_def Counter_facts) (simp add: keys_def)

text \<open>
  C5. The statistics taken from the result of each of the three methods, and the result of
  the quick mode, satisfy the invariant of a WordCount: the total is the sum of the
  frequencies, the unique count is the number of keys of the frequency table, the keys are
  pairwise different, every frequency is at least 1, and the unique list is the sorted list
  of the keys.
\<close>

theorem word_counts_well_formed:
  "well_formed_stats (final_stats_of (count_words_method1 text)) \<and>
   well_formed_stats (final_stats_of (count_words_method2 text)) \<and>
   well_formed_stats (final_stats_of (count_words_method3 text)) \<and>
   (\<exists>st. analyze_text text False = Inr st \<and>
      well_formed (total_words_s st) (unique_words_s st) (word_freq_s st) (unique_word_list_s st))"
  by (simp add: count_words_method1_def count_words_method2_def count_words_method3_def
        well_formed_make_result analyze_text_def Let_def well_formed_def Counter_facts)
     (simp add: keys_def)

theorem word_counts_well_formed_witness:
  "well_formed_stats (final_stats_of (count_words_method1 ''It's a cat'')) \<and>
   fs_total_words (final_stats_of (count_words_method1 ''It's a cat'')) = 4"
  using word_counts_well_formed [of "''It's a cat''"]
  by (simp add: final_stats_of_def count_words_method1_def make_result_def words_cat Let_def)

section \<open>The confidence classifier follows the table\<close>

lemma py_max_Max: "py_max v vs = Max (set (v # vs))"
proof (induction vs arbitrary: v)
  case Nil
  then show ?case by simp
next
  case (Cons x xs)
  have "(if v < x then x else v) = max v x" by (simp add: max_def)
  then have "py_max v (x # xs) = Max (set (max v x # xs))"
    using Cons.IH [of "max v x"] by simp
  also have "\<dots> = Max (set (v # x # xs))"
    by (cases "xs = []") (simp_all add: max.assoc)
  finally show ?case .
qed

lemma py_min_Min: "py_min v vs = Min (set (v # vs))"
proof (induction vs arbitrary: v)
  case Nil
  then show ?case by simp
next
  case (Cons x xs)
  have "(if x < v then x else v) = min v x" by (simp add: min_def)
  then have "py_min v (x # xs) = Min (set (min v x # xs))"
    using Cons.IH [of "min v x"] by simp
  also have "\<dots> = Min (set (v # x # xs))"
    by (cases "xs = []") (simp_all add: min.assoc)
  finally show ?case .
qed

lemma py_max_mem: "py_max v vs \<in> set (v # vs)"
  unfolding py_max_Max by (rule Max_in) simp_all

lemma py_min_mem: "py_min v vs \<in> set (v # vs)"
  unfolding py_min_Min by (rule Min_in) simp_all

lemma py_max_ge: "x \<in> set (v # vs) \<Longrightarrow> x \<le> py_max v vs"
  unfolding py_max_Max by (rule Max_ge) simp_all

lemma py_min_le: "x \<in> set (v # vs) \<Longrightarrow> py_min v vs \<le> x"
  unfolding py_min_Min by (rule Min_le) simp_all

lemma consistent_no_spread:
  assumes "card (set (v # vs)) = 1"
  shows "py_max v vs - py_min v vs = 0"
proof -
  obtain a where a: "set (v # vs) = {a}"
    using assms by (auto simp: card_1_singleton_iff)
  have "py_max v vs = a" "py_min v vs = a"
    using py_max_mem [of v vs] py_min_mem [of v vs] unfolding a by simp_all
  then show ?thesis by simp
qed

lemma spread_consistent:
  "(py_max v vs - py_min v vs = 0) = (card (set (v # vs)) = 1)"
proof
  assume "py_max v vs - py_min v vs = 0"
  then have eq: "py_max v vs = py_min v vs" by simp
  have "x = py_max v vs" if "x \<in> set (v # vs)" for x
    using py_max_ge [OF that] py_min_le [OF that] eq by simp
  then have "set (v # vs) = {py_max v vs}" by auto
  then have "card (set (v # vs)) = card {py_max v vs}" by (simp only:)
  then show "card (set (v # vs)) = 1" by simp
qed (rule consistent_no_spread)

lemma compare_results_fields:
  assumes "compare_results (r1 # r2 # rs) = Report c"
  shows "cr_consistent c =
           (card (set (total_words r1 # map total_words (r2 # rs))) = 1 \<and>
            card (set (unique_words r1 # map unique_words (r2 # rs))) = 1)"
    and "(cr_status c = StatusPass) = cr_consistent c"
    and "mr_difference (cr_total_words c) =
           py_max (total_words r1) (map total_words (r2 # rs)) -
           py_min (total_words r1) (map total_words (r2 # rs))"
    and "mr_difference (cr_unique_words c) =
           py_max (unique_words r1) (map unique_words (r2 # rs)) -
           py_min (unique_words r1) (map unique_words (r2 # rs))"
proof -
  have c: "c =
    \<lparr>cr_status =
       (if card (set (map total_words (r1 # r2 # rs))) = 1 \<and>
           card (set (map unique_words (r1 # r2 # rs))) = 1
        then StatusPass else StatusWarning),
     cr_consistent =
       (card (set (map total_words (r1 # r2 # rs))) = 1 \<and>
        card (set (map unique_words (r1 # r2 # rs))) = 1),
     cr_total_words =
       metric (r1 # r2 # rs) (total_words r1) (map total_words (r2 # rs)) total_words,
     cr_unique_words =
       metric (r1 # r2 # rs) (unique_words r1) (map unique_words (r2 # rs)) unique_words\<rparr>"
    using assms by (simp only: compare_results.simps Let_def comparison.inject)
  show "cr_consistent c =
           (card (set (total_words r1 # map total_words (r2 # rs))) = 1 \<and>
            card (set (unique_words r1 # map unique_words (r2 # rs))) = 1)"
    by (subst c) simp
  show "(cr_status c = StatusPass) = cr_consistent c"
    by (subst (1 2) c) simp
  show "mr_difference (cr_total_words c) =
           py_max (total_words r1) (map total_words (r2 # rs)) -
           py_min (total_words r1) (map total_words (r2 # rs))"
    by (subst c) (simp add: metric_def del: py_max.simps py_min.simps list.map)
  show "mr_difference (cr_unique_words c) =
           py_max (unique_words r1) (map unique_words (r2 # rs)) -
           py_min (unique_words r1) (map unique_words (r2 # rs))"
    by (subst c) (simp add: metric_def del: py_max.simps py_min.simps list.map)
qed

text \<open>
  C3. For every report \<open>compare_results\<close> builds, the message of \<open>get_recommendation\<close> and
  its label are the ones of the first matching row of the specification's table, which is
  entered with \<open>consistent\<close> and the two spreads only. The label is \<open>Warn\<close> exactly when the
  spread of the totals exceeds 50, and \<open>get_verification_summary\<close> asks for a check in
  exactly that case.
\<close>

theorem classifier_follows_table:
  assumes "compare_results results = Report c"
  shows "get_recommendation (Report c) =
           Inr (snd (classifier_table (cr_consistent c)
                  (mr_difference (cr_total_words c)) (mr_difference (cr_unique_words c)))) \<and>
         (\<exists>m. get_recommendation (Report c) = Inr m \<and>
            label_of m = fst (classifier_table (cr_consistent c)
                  (mr_difference (cr_total_words c)) (mr_difference (cr_unique_words c))) \<and>
            (label_of m = Warn) = (50 < mr_difference (cr_total_words c))) \<and>
         get_verification_summary (Report c) =
           Inr (if 50 < mr_difference (cr_total_words c) then NeedsCheck else VerificationPassed)"
proof -
  obtain r1 r2 rs where rs: "results = r1 # r2 # rs"
    using assms by (cases results rule: compare_results.cases) auto
  note f = compare_results_fields [OF assms [unfolded rs]]
  have "mr_difference (cr_total_words c) = 0" if "cr_consistent c"
    using that unfolding f(1) f(3) by (simp only: consistent_no_spread)
  then show ?thesis
    by (auto simp: f(2) classifier_table_def Let_def)
qed

theorem classifier_follows_table_witness:
  "get_recommendation
     (compare_results [make_result Method1 (replicate 60 ''a''), make_result Method2 []]) =
     Inr LargeDifference \<and>
   get_verification_summary
     (compare_results [make_result Method1 (replicate 60 ''a''), make_result Method2 []]) =
     Inr NeedsCheck"
proof -
  obtain c where h:
    "compare_results [make_result Method1 (replicate 60 ''a''), make_result Method2 []] = Report c"
    by (simp add: Let_def)
  have T: "mr_difference (cr_total_words c) = 60"
    unfolding compare_results_fields(3) [OF h] by (simp add: make_result_def Let_def)
  have "\<not> cr_consistent c"
    unfolding compare_results_fields(1) [OF h] by (simp add: make_result_def Let_def)
  with classifier_follows_table [OF h] T show ?thesis
    unfolding h by (simp add: classifier_table_def)
qed


section \<open>The cross-validator always returns\<close>

lemma get_recommendation_total: "\<exists>m. get_recommendation (Report c) = Inr m"
  by (simp add: Let_def)

lemma truediv_tenth:
  assumes "0 < m"
  shows "py_truediv x m = Inr (of_int x / of_int m)"
    and "((1::rat) / 10 < of_int x / of_int m) = (m < 10 * x)"
proof -
  show "py_truediv x m = Inr (of_int x / of_int m)"
    using assms by (simp add: py_truediv_def)
  have "((1::rat) / 10 < of_int x / of_int m) = ((of_int m :: rat) < 10 * of_int x)"
    using assms by (simp add: field_simps)
  also have "\<dots> = ((of_int m :: rat) < of_int (10 * x))" by simp
  also have "\<dots> = (m < 10 * x)" by (simp only: of_int_less_iff)
  finally show "((1::rat) / 10 < of_int x / of_int m) = (m < 10 * x)" .
qed

lemma select_best_eq:
  assumes "0 \<le> total_words r1"
  shows "select_best c r1 others =
           Inr (if \<not> cr_consistent c \<and>
                   py_max (total_words r1) (map total_words others) <
                     10 * (py_max (total_words r1) (map total_words others) - total_words r1)
                then max_by_total r1 others else r1)"
proof -
  let ?m = "py_max (total_words r1) (map total_words others)"
  have ge: "total_words r1 \<le> ?m" by (rule py_max_ge) simp
  show ?thesis
  proof (cases "0 < ?m")
    case True
    show ?thesis
      unfolding select_best_def Let_def using True
      by (simp add: truediv_tenth [OF True])
  next
    case False
    with ge assms have "?m = 0" "total_words r1 = 0" by simp_all
    then show ?thesis
      unfolding select_best_def Let_def by simp
  qed
qed

lemma total_words_nonneg:
  "0 \<le> total_words (count_words_method1 text)"
  by (simp add: count_words_method1_def make_result_def Let_def)

lemma verify_text_result:
  obtains c m where
    "compare_results [count_words_method1 text, count_words_method2 text, count_words_method3 text] = Report c"
    "get_recommendation (Report c) = Inr m"
    "verify_text text =
       Inr \<lparr>v_results = [count_words_method1 text, count_words_method2 text, count_words_method3 text],
            v_comparison = c, v_recommendation = m,
            v_final_stats = final_stats_of
              (if \<not> cr_consistent c \<and>
                  py_max (total_words (count_words_method1 text))
                     (map total_words [count_words_method2 text, count_words_method3 text]) <
                  10 * (py_max (total_words (count_words_method1 text))
                     (map total_words [count_words_method2 text, count_words_method3 text]) -
                        total_words (count_words_method1 text))
               then max_by_total (count_words_method1 text)
                      [count_words_method2 text, count_words_method3 text]
               else count_words_method1 text),
            v_verified = cr_consistent c\<rparr>"
proof -
  obtain c where c: "compare_results [count_words_method1 text, count_words_method2 text, count_words_method3 text] = Report c"
    by (simp add: Let_def)
  obtain m where m: "get_recommendation (Report c) = Inr m"
    using get_recommendation_total by blast
  show thesis
    by (rule that [OF c m])
       (simp only: verify_text_def Let_def c m sum.case comparison.case
          select_best_eq [OF total_words_nonneg])
qed

text \<open>
  C4. \<open>verify_text\<close> returns a result for every text: the comparison always has its three
  results, and the division of line 164 is only reached with a positive divisor. On the
  empty text the final counts are zero with an empty frequency table, the comparison is
  consistent and the message is the one of full consistency, whose label is \<open>Pass\<close>.
\<close>

theorem verify_text_never_fails:
  "(\<exists>v. verify_text text = Inr v) \<and>
   (\<exists>v. verify_text [] = Inr v \<and>
      fs_total_words (v_final_stats v) = 0 \<and> fs_unique_words (v_final_stats v) = 0 \<and>
      fs_word_freq (v_final_stats v) = [] \<and> fs_unique_word_list (v_final_stats v) = [] \<and>
      cr_consistent (v_comparison v) \<and> v_verified v \<and>
      v_recommendation v = FullyConsistent \<and> label_of (v_recommendation v) = Pass)"
proof
  show "\<exists>v. verify_text text = Inr v"
    by (rule verify_text_result [of "text"]) blast
next
  have m1: "count_words_method1 [] = make_result Method1 []"
    by (simp add: count_words_method1_def extract_words_with_smart_contractions_def
          expand_contractions_def expand_standard_def STANDARD_CONTRACTIONS_def Let_def)
  have m2: "count_words_method2 [] = make_result Method2 []"
    by (simp add: count_words_method2_def)
  have m3: "count_words_method3 [] = make_result Method3 []"
    by (simp add: count_words_method3_def)
  show "\<exists>v. verify_text [] = Inr v \<and>
      fs_total_words (v_final_stats v) = 0 \<and> fs_unique_words (v_final_stats v) = 0 \<and>
      fs_word_freq (v_final_stats v) = [] \<and> fs_unique_word_list (v_final_stats v) = [] \<and>
      cr_consistent (v_comparison v) \<and> v_verified v \<and>
      v_recommendation v = FullyConsistent \<and> label_of (v_recommendation v) = Pass"
    by (simp add: verify_text_def m1 m2 m3 make_result_def Counter_def Let_def metric_def
          select_best_def final_stats_of_def keys_def)
qed

section \<open>The selection policy\<close>

lemma card_three: "(card {a, b, c} = Suc 0) = (a = b \<and> b = c)"
  by (auto simp: card_insert_if)

lemma method_names:
  "method_name (count_words_method1 text) = Method1"
  "method_name (count_words_method2 text) = Method2"
  "method_name (count_words_method3 text) = Method3"
  by (simp_all add: count_words_method1_def count_words_method2_def count_words_method3_def
        make_result_def Let_def)

lemma more_than_tenth_lower:
  "((of_int a :: rat) < of_int m - of_int m / 10) = (m < 10 * (m - a))"
proof -
  have "((of_int a :: rat) < of_int m - of_int m / 10) = ((of_int m :: rat) < of_int (10 * (m - a)))"
    by (simp add: field_simps)
  then show ?thesis by (simp only: of_int_less_iff)
qed

lemma chosen_result:
  "(if \<not> consistent \<and>
       py_max (total_words r1) (map total_words [r2, r3]) <
         10 * (py_max (total_words r1) (map total_words [r2, r3]) - total_words r1)
    then max_by_total r1 [r2, r3] else r1) =
   (case policy_choice consistent (total_words r1) (total_words r2) (total_words r3) of
      Method1 \<Rightarrow> r1 | Method2 \<Rightarrow> r2 | Method3 \<Rightarrow> r3)"
proof -
  have mx: "py_max (total_words r1) (map total_words [r2, r3]) =
            max (total_words r1) (max (total_words r2) (total_words r3))"
    by (simp add: max_def)
  show ?thesis
    unfolding mx policy_choice_def Let_def more_than_tenth_lower
    by (simp add: max_def)
qed

text \<open>
  C1. For every text, \<open>verify_text\<close> takes its final statistics from the result the
  specification's policy names: strategy A, unless the results are not consistent (the three
  totals or the three unique counts differ) and the total of A is more than 10% below the
  largest total; then from the first strategy, in the order A, B, C, with the largest total.
\<close>

theorem selection_policy:
  fixes "text" :: string
  defines "a \<equiv> total_words (count_words_method1 text)"
    and "b \<equiv> total_words (count_words_method2 text)"
    and "c \<equiv> total_words (count_words_method3 text)"
  shows "\<exists>v. verify_text text = Inr v \<and>
           cr_consistent (v_comparison v) =
             (a = b \<and> b = c \<and>
              unique_words (count_words_method1 text) = unique_words (count_words_method2 text) \<and>
              unique_words (count_words_method2 text) = unique_words (count_words_method3 text)) \<and>
           fs_selected_method (v_final_stats v) =
             policy_choice (cr_consistent (v_comparison v)) a b c \<and>
           v_final_stats v =
             final_stats_of (result_of (policy_choice (cr_consistent (v_comparison v)) a b c) text)"
proof -
  obtain r m where
    r: "compare_results [count_words_method1 text, count_words_method2 text, count_words_method3 text] = Report r"
    and v: "verify_text text =
       Inr \<lparr>v_results = [count_words_method1 text, count_words_method2 text, count_words_method3 text],
            v_comparison = r, v_recommendation = m,
            v_final_stats = final_stats_of
              (if \<not> cr_consistent r \<and>
                  py_max (total_words (count_words_method1 text))
                     (map total_words [count_words_method2 text, count_words_method3 text]) <
                  10 * (py_max (total_words (count_words_method1 text))
                     (map total_words [count_words_method2 text, count_words_method3 text]) -
                        total_words (count_words_method1 text))
               then max_by_total (count_words_method1 text)
                      [count_words_method2 text, count_words_method3 text]
               else count_words_method1 text),
            v_verified = cr_consistent r\<rparr>"
    by (rule verify_text_result [of "text"])
  have cons: "cr_consistent r =
             (a = b \<and> b = c \<and>
              unique_words (count_words_method1 text) = unique_words (count_words_method2 text) \<and>
              unique_words (count_words_method2 text) = unique_words (count_words_method3 text))"
    unfolding compare_results_fields(1) [OF r] a_def b_def c_def
    by (simp add: card_three)
  have best: "(if \<not> cr_consistent r \<and>
                  py_max (total_words (count_words_method1 text))
                     (map total_words [count_words_method2 text, count_words_method3 text]) <
                  10 * (py_max (total_words (count_words_method1 text))
                     (map total_words [count_words_method2 text, count_words_method3 text]) -
                        total_words (count_words_method1 text))
               then max_by_total (count_words_method1 text)
                      [count_words_method2 text, count_words_method3 text]
               else count_words_method1 text) =
              result_of (policy_choice (cr_consistent r) a b c) text"
    unfolding a_def b_def c_def result_of_def by (rule chosen_result)
  have sel: "fs_selected_method (final_stats_of (result_of l text)) = l" for l
    by (cases l) (simp_all add: result_of_def final_stats_of_def method_names)
  have v': "verify_text text =
       Inr \<lparr>v_results = [count_words_method1 text, count_words_method2 text, count_words_method3 text],
            v_comparison = r, v_recommendation = m,
            v_final_stats = final_stats_of (result_of (policy_choice (cr_consistent r) a b c) text),
            v_verified = cr_consistent r\<rparr>"
    unfolding v best ..
  show ?thesis
    unfolding v' using cons by (simp add: sel)
qed

lemma method1_a1: "extract_words_with_smart_contractions ''a1 b1 c1'' = []"
  by (simp only: method1_eval cong: if_weak_cong)

lemma method2_a1: "method2_words (split_whitespace ''a1 b1 c1'') = [''a'', ''b'', ''c'']"
  by (simp only: eval_rules cong: if_weak_cong)

lemma method3_a1: "findall_alpha (remove_digit_runs ''a1 b1 c1'') = [''a'', ''b'', ''c'']"
  by (simp only: eval_rules cong: if_weak_cong)

lemma method2_cat: "method2_words (split_whitespace ''It's a cat'') = [''its'', ''a'', ''cat'']"
  by (simp only: eval_rules cong: if_weak_cong)

lemma method3_cat: "findall_alpha (remove_digit_runs ''It's a cat'') = [''It'', ''s'', ''a'', ''cat'']"
  by (simp only: eval_rules cong: if_weak_cong)

theorem selection_policy_witness:
  "(\<exists>v. verify_text ''a1 b1 c1'' = Inr v \<and> \<not> cr_consistent (v_comparison v) \<and>
      fs_selected_method (v_final_stats v) = Method2 \<and> fs_total_words (v_final_stats v) = 3) \<and>
   (\<exists>v. verify_text ''It's a cat'' = Inr v \<and> \<not> cr_consistent (v_comparison v) \<and>
      fs_selected_method (v_final_stats v) = Method1 \<and> fs_total_words (v_final_stats v) = 4)"
proof
  have t: "total_words (count_words_method1 ''a1 b1 c1'') = 0"
    "total_words (count_words_method2 ''a1 b1 c1'') = 3"
    "total_words (count_words_method3 ''a1 b1 c1'') = 3"
    by (simp_all add: count_words_method1_def count_words_method2_def count_words_method3_def
          make_result_def Let_def method1_a1 method2_a1 method3_a1)
  have p: "policy_choice False 0 3 3 = Method2"
    by (simp add: policy_choice_def)
  show "\<exists>v. verify_text ''a1 b1 c1'' = Inr v \<and> \<not> cr_consistent (v_comparison v) \<and>
      fs_selected_method (v_final_stats v) = Method2 \<and> fs_total_words (v_final_stats v) = 3"
    using selection_policy [of "''a1 b1 c1''"] unfolding t
    by (auto simp: p result_of_def final_stats_of_def t)
next
  have t: "total_words (count_words_method1 ''It's a cat'') = 4"
    "total_words (count_words_method2 ''It's a cat'') = 3"
    "total_words (count_words_method3 ''It's a cat'') = 4"
    by (simp_all add: count_words_method1_def count_words_method2_def count_words_method3_def
          make_result_def Let_def words_cat method2_cat method3_cat)
  have p: "policy_choice False 4 3 4 = Method1"
    by (simp add: policy_choice_def)
  show "\<exists>v. verify_text ''It's a cat'' = Inr v \<and> \<not> cr_consistent (v_comparison v) \<and>
      fs_selected_method (v_final_stats v) = Method1 \<and> fs_total_words (v_final_stats v) = 4"
    using selection_policy [of "''It's a cat''"] unfolding t
    by (auto simp: p result_of_def final_stats_of_def t)
qed

section \<open>The quick mode and strategy C\<close>

lemma letter_word: "ascii_letter c \<Longrightarrow> re_word c"
  by (auto simp: ascii_letter_def re_word_def isalpha_def Let_def)

lemma digit_other_word: "re_digit c \<Longrightarrow> other_word c"
  by (auto simp: other_word_def ascii_letter_def re_word_def re_digit_def Let_def)

lemma letter_not_digit: "ascii_letter c \<Longrightarrow> \<not> re_digit c"
  by (auto simp: ascii_letter_def re_digit_def Let_def)

lemma findall_alpha_letter:
  "ascii_letter c \<Longrightarrow>
   findall_alpha (c # cs) = (c # takeWhile ascii_letter cs) # findall_alpha (dropWhile ascii_letter cs)"
  by (simp add: findall_alpha.simps(2))

lemma findall_alpha_other: "\<not> ascii_letter c \<Longrightarrow> findall_alpha (c # cs) = findall_alpha cs"
  by (simp add: findall_alpha.simps(2))

lemma letters_apart_tl: "letters_apart (c # cs) \<Longrightarrow> letters_apart cs"
  by (cases cs) simp_all

lemma letters_apart_append: "letters_apart (xs @ ys) \<Longrightarrow> letters_apart ys"
  by (induction xs) (auto dest: letters_apart_tl)

lemma letters_apart_run:
  assumes "letters_apart (c # cs)" "ascii_letter c"
  shows "letters_apart (last (c # takeWhile ascii_letter cs) # dropWhile ascii_letter cs)"
proof -
  have "c # cs = butlast (c # takeWhile ascii_letter cs) @
          (last (c # takeWhile ascii_letter cs) # dropWhile ascii_letter cs)"
    by (metis append.assoc append_Cons append_Nil append_butlast_last_id list.distinct(1)
          takeWhile_dropWhile_id)
  then show ?thesis
    using assms(1) letters_apart_append by metis
qed

lemma last_run_letter:
  "ascii_letter c \<Longrightarrow> ascii_letter (last (c # takeWhile ascii_letter cs))"
  by (metis last_in_set list.distinct(1) set_ConsD set_takeWhileD)

lemma after_run_no_word:
  assumes "letters_apart (l # rest)" "ascii_letter l" "rest = dropWhile ascii_letter cs"
  shows "\<not> word_opt (next_char rest)"
proof (cases rest)
  case Nil
  then show ?thesis by simp
next
  case (Cons d ds)
  have "\<not> ascii_letter d"
    using assms(3) Cons by (metis hd_dropWhile list.distinct(1) list.sel(1))
  moreover have "\<not> other_word d"
    using assms(1,2) Cons by simp
  ultimately show ?thesis
    using Cons by (simp add: other_word_def)
qed

lemma findall_bounded_alpha:
  "letters_apart (case prev of None \<Rightarrow> s | Some p \<Rightarrow> p # s) \<Longrightarrow>
   \<not> ((\<exists>p. prev = Some p \<and> ascii_letter p) \<and> (\<exists>c cs. s = c # cs \<and> ascii_letter c)) \<Longrightarrow>
   findall_bounded prev s = findall_alpha s"
proof (induction prev s rule: findall_bounded.induct)
  case (1 prev)
  then show ?case by simp
next
  case (2 prev c cs)
  have tl: "letters_apart (c # cs)"
    using "2.prems"(1) by (cases prev) (auto dest: letters_apart_tl)
  show ?case
  proof (cases "ascii_letter c")
    case True
    let ?run = "c # takeWhile ascii_letter cs"
    let ?rest = "dropWhile ascii_letter cs"
    have run: "takeWhile ascii_letter (c # cs) = ?run" "dropWhile ascii_letter (c # cs) = ?rest"
      using True by simp_all
    have "\<not> word_opt prev"
    proof (cases prev)
      case None
      then show ?thesis by simp
    next
      case (Some p)
      then have "\<not> other_word p" using "2.prems"(1) True by simp
      moreover have "\<not> ascii_letter p" using "2.prems"(2) Some True by simp
      ultimately show ?thesis using Some by (simp add: other_word_def)
    qed
    then have b1: "at_boundary prev (c # cs)"
      using True by (simp add: at_boundary_def letter_word)
    have ap: "letters_apart (last ?run # ?rest)"
      using tl True by (rule letters_apart_run)
    have ll: "ascii_letter (last ?run)" using True by (rule last_run_letter)
    have nw: "\<not> word_opt (next_char ?rest)"
      using ap ll by (rule after_run_no_word) simp
    then have b2: "at_boundary (Some (last ?run)) ?rest"
      using ll by (simp add: at_boundary_def letter_word)
    have nl: "\<not> (\<exists>d ds. ?rest = d # ds \<and> ascii_letter d)"
      by (metis hd_dropWhile list.distinct(1) list.sel(1))
    have "findall_bounded (Some (last ?run)) ?rest = findall_alpha ?rest"
      using "2.IH"(1) [OF refl refl] b1 b2 ap nl unfolding run by simp
    then show ?thesis
      using b1 b2 True by (simp add: findall_bounded.simps(2) findall_alpha_letter Let_def)
  next
    case False
    have "findall_bounded (Some c) cs = findall_alpha cs"
      using "2.IH"(2) [OF refl refl] False tl by simp
    then show ?thesis
      using False by (simp add: findall_bounded.simps(2) findall_alpha_other Let_def)
  qed
qed


lemma remove_digit_runs_filter: "remove_digit_runs s = filter (\<lambda>c. \<not> re_digit c) s"
proof (induction s rule: remove_digit_runs.induct)
  case 1
  then show ?case by simp
next
  case (2 c cs)
  have "filter (\<lambda>c. \<not> re_digit c) (dropWhile re_digit cs) = filter (\<lambda>c. \<not> re_digit c) cs"
    by (induction cs) simp_all
  with 2 show ?case by (simp add: remove_digit_runs.simps(2))
qed

lemma filter_letters:
  "filter (\<lambda>c. \<not> re_digit c) (takeWhile ascii_letter cs) = takeWhile ascii_letter cs"
  by (induction cs) (simp_all add: letter_not_digit)

lemma findall_alpha_without_digits:
  "letters_apart s \<Longrightarrow> findall_alpha (filter (\<lambda>c. \<not> re_digit c) s) = findall_alpha s"
proof (induction s rule: findall_alpha.induct)
  case 1
  then show ?case by simp
next
  case (2 c cs)
  let ?nd = "\<lambda>c. \<not> re_digit c"
  have tl: "letters_apart cs" using "2.prems" by (rule letters_apart_tl)
  show ?case
  proof (cases "ascii_letter c")
    case True
    let ?run = "takeWhile ascii_letter cs"
    let ?rest = "dropWhile ascii_letter cs"
    have ap: "letters_apart (last (c # ?run) # ?rest)"
      using "2.prems" True by (rule letters_apart_run)
    have ll: "ascii_letter (last (c # ?run))" using True by (rule last_run_letter)
    have split: "filter ?nd cs = ?run @ filter ?nd ?rest"
      by (metis filter_append filter_letters takeWhile_dropWhile_id)
    have hd_rest: "filter ?nd ?rest = [] \<or> (\<exists>d ds. filter ?nd ?rest = d # ds \<and> \<not> ascii_letter d)"
    proof (cases ?rest)
      case Nil
      show ?thesis unfolding Nil by simp
    next
      case (Cons d ds)
      have "\<not> ascii_letter d"
        using Cons by (metis hd_dropWhile list.distinct(1) list.sel(1))
      moreover have "\<not> other_word d" using ap ll unfolding Cons by simp
      ultimately show ?thesis unfolding Cons using digit_other_word by auto
    qed
    have allrun: "ascii_letter x" if "x \<in> set ?run" for x
      using that by (rule set_takeWhileD [THEN conjunct2])
    have twX: "takeWhile ascii_letter (filter ?nd ?rest) = []"
      using hd_rest by auto
    have dwX: "dropWhile ascii_letter (filter ?nd ?rest) = filter ?nd ?rest"
      using hd_rest by auto
    have tw: "takeWhile ascii_letter (filter ?nd cs) = ?run"
      unfolding split by (simp add: takeWhile_append2 allrun twX)
    have dw: "dropWhile ascii_letter (filter ?nd cs) = filter ?nd ?rest"
      unfolding split by (simp add: dropWhile_append2 allrun dwX)
    have "findall_alpha (filter ?nd ?rest) = findall_alpha ?rest"
      using "2.IH"(1) [OF refl] True ap by (auto dest: letters_apart_tl)
    then show ?thesis
      using True by (simp add: letter_not_digit findall_alpha_letter tw dw)
  next
    case False
    have "findall_alpha (filter ?nd cs) = findall_alpha cs"
      using "2.IH"(2) [OF refl] False tl by simp
    then show ?thesis
      using False by (simp add: findall_alpha_other)
  qed
qed

lemma findall_alpha_nonempty: "w \<in> set (findall_alpha s) \<Longrightarrow> w \<noteq> []"
  by (induction s rule: findall_alpha.induct)
     (auto simp: findall_alpha.simps(2) Let_def split: if_splits)

lemma filter_nonempty_findall_alpha:
  "filter (\<lambda>word. word \<noteq> []) (findall_alpha s) = findall_alpha s"
  by (rule filter_True) (auto dest: findall_alpha_nonempty)

text \<open>
  C2 as amended. The quick mode scans with \<open>\b[a-zA-Z]+\b\<close> and strategy C with \<open>[a-zA-Z]+\<close>
  after removing the digits. On every text in which no ASCII letter stands next to a digit,
  an underscore or another word character that is not an ASCII letter, the quick mode
  returns the WordCount of strategy C: the same total, unique count, frequency table and
  sorted unique list.
\<close>

theorem quick_count_agrees_apart:
  assumes "letters_apart text"
  shows "quick_count text = Inr (word_count_of_result (count_words_method3 text))"
proof -
  have "findall_bounded None text = findall_alpha text"
    using assms by (simp add: findall_bounded_alpha)
  moreover have "findall_alpha (remove_digit_runs text) = findall_alpha text"
    using assms by (simp add: remove_digit_runs_filter findall_alpha_without_digits)
  ultimately show ?thesis
    by (simp add: quick_count_def analyze_text_def word_count_of_stats_def
          word_count_of_result_def final_stats_of_def count_words_method3_def make_result_def
          filter_nonempty_findall_alpha Let_def)
qed

theorem quick_count_agrees_apart_witness:
  "letters_apart ''It's a cat 42'' \<and>
   quick_count ''It's a cat 42'' = Inr (word_count_of_result (count_words_method3 ''It's a cat 42''))"
proof -
  have h: "letters_apart ''It's a cat 42''"
    by (simp add: other_word_def re_word_chars ascii_letter_chars)
  from quick_count_agrees_apart [OF h] h show ?thesis by (simp only: simp_thms)
qed

text \<open>
  The claim as stated fails where a letter stands next to a digit: on \<open>a1\<close> the quick mode
  finds no word, strategy C finds the word a.
\<close>

lemma quick_a1: "findall_bounded None ''a1'' = []"
  by (simp only: eval_rules cong: if_weak_cong)

lemma method3_a1_only: "findall_alpha (remove_digit_runs ''a1'') = [''a'']"
  by (simp only: eval_rules cong: if_weak_cong)

theorem quick_count_differs:
  "quick_count ''a1'' = Inr (0, 0, [], []) \<and>
   word_count_of_result (count_words_method3 ''a1'') = (1, 1, [(''a'', 1)], [''a'']) \<and>
   quick_count ''a1'' \<noteq> Inr (word_count_of_result (count_words_method3 ''a1''))"
  by (simp add: quick_count_def analyze_text_def word_count_of_stats_def
        word_count_of_result_def final_stats_of_def count_words_method3_def make_result_def
        quick_a1 method3_a1_only Counter_def keys_def lower_def lower_char_chars Let_def)

section \<open>Plain text\<close>

lemma letter_classes:
  assumes "ascii_letter c"
  shows "isalpha c" "\<not> isspace c" "c \<notin> set strip_chars" "c \<noteq> CHR 0x27" "c \<noteq> CHR '' ''"
    "\<not> other_word c"
proof -
  show "isalpha c" "\<not> isspace c"
    using assms by (auto simp: ascii_letter_def isalpha_def isspace_def Let_def)
  show "c \<noteq> CHR 0x27" "c \<noteq> CHR '' ''"
    using assms by (auto simp: ascii_letter_def code_point_def Let_def)
  show "c \<notin> set strip_chars"
    using assms by (auto simp: strip_chars_def ascii_letter_def code_point_def Let_def)
  show "\<not> other_word c"
    using assms by (simp add: other_word_def)
qed

lemma space_classes:
  "isspace (CHR '' '')" "\<not> re_word (CHR '' '')" "\<not> ascii_letter (CHR '' '')"
  "\<not> re_digit (CHR '' '')" "\<not> other_word (CHR '' '')"
  by (simp_all add: isspace_chars re_word_chars ascii_letter_chars re_digit_chars other_word_def)

lemma plain_word_Cons: "plain_word w \<Longrightarrow> \<exists>c cs. w = c # cs \<and> ascii_letter c \<and> list_all ascii_letter cs"
  by (cases w) (simp_all add: plain_word_def)

lemma join_spaces_Cons:
  "join_spaces (w # ws) = (if ws = [] then w else w @ CHR '' '' # join_spaces ws)"
  by (cases ws) simp_all

lemma join_spaces_append:
  "xs \<noteq> [] \<Longrightarrow> ys \<noteq> [] \<Longrightarrow> join_spaces (xs @ ys) = join_spaces xs @ CHR '' '' # join_spaces ys"
  by (induction xs) (auto simp: join_spaces_Cons)

lemma plain_text_chars:
  "list_all plain_word ws \<Longrightarrow> c \<in> set (join_spaces ws) \<Longrightarrow> ascii_letter c \<or> c = CHR '' ''"
  by (induction ws) (auto simp: join_spaces_Cons plain_word_def list_all_iff split: if_splits)

lemma takeWhile_plain:
  "list_all ascii_letter w \<Longrightarrow> s = [] \<or> \<not> ascii_letter (hd s) \<Longrightarrow>
   takeWhile ascii_letter (w @ s) = w \<and> dropWhile ascii_letter (w @ s) = s"
proof (induction w)
  case Nil
  then show ?case by (cases s) auto
next
  case (Cons c w)
  then show ?case by simp
qed

text \<open>Strategy C on plain text.\<close>

lemma findall_alpha_word:
  assumes "plain_word w" "s = [] \<or> \<not> ascii_letter (hd s)"
  shows "findall_alpha (w @ s) = w # findall_alpha s"
proof -
  obtain c cs where w: "w = c # cs" "ascii_letter c" "list_all ascii_letter cs"
    using plain_word_Cons [OF assms(1)] by blast
  show ?thesis
    unfolding w using w(2) takeWhile_plain [OF w(3) assms(2)]
    by (simp add: findall_alpha.simps(2) Let_def)
qed

lemma findall_alpha_plain: "list_all plain_word ws \<Longrightarrow> findall_alpha (join_spaces ws) = ws"
proof (induction ws)
  case Nil
  then show ?case by simp
next
  case (Cons w ws)
  show ?case
  proof (cases "ws = []")
    case True
    then show ?thesis
      using Cons.prems findall_alpha_word [of w "[]"] by simp
  next
    case False
    have "findall_alpha (w @ CHR '' '' # join_spaces ws) = w # findall_alpha (CHR '' '' # join_spaces ws)"
      using Cons.prems by (intro findall_alpha_word) (simp_all add: space_classes)
    then show ?thesis
      using False Cons by (simp add: join_spaces_Cons findall_alpha.simps(2) space_classes)
  qed
qed









section \<open>Strategy A on plain text\<close>

lemma code_point_lower_char:
  "code_point (lower_char c) =
     (if (65 \<le> code_point c \<and> code_point c \<le> 90) \<or> (192 \<le> code_point c \<and> code_point c \<le> 214) \<or>
         (216 \<le> code_point c \<and> code_point c \<le> 222)
      then code_point c + 32 else code_point c)"
  by (auto simp: lower_char_def code_point_def Let_def)

lemma lower_char_apostrophe: "lower_char c = CHR 0x27 \<Longrightarrow> c = CHR 0x27"
proof -
  assume a: "lower_char c = CHR 0x27"
  have "code_point (lower_char c) = 39" unfolding a by (simp add: code_point_def)
  then have "code_point c = 39"
    by (auto simp: code_point_lower_char split: if_splits)
  then have "of_char c = (of_char (CHR 0x27) :: nat)" by (simp add: code_point_def)
  then show ?thesis by (simp only: of_char_eq_iff)
qed

lemma lower_char_space: "lower_char c = CHR '' '' \<Longrightarrow> c = CHR '' ''"
proof -
  assume a: "lower_char c = CHR '' ''"
  have "code_point (lower_char c) = 32" unfolding a by (simp add: code_point_def)
  then have "code_point c = 32"
    by (auto simp: code_point_lower_char split: if_splits)
  then have "of_char c = (of_char (CHR '' '') :: nat)" by (simp add: code_point_def)
  then show ?thesis by (simp only: of_char_eq_iff)
qed

lemma match_ci_iff:
  "match_ci pat s =
     (length pat \<le> length s \<and> map lower_char pat = map lower_char (take (length pat) s))"
  by (induction pat s rule: match_ci.induct) auto

lemma match_ci_apostrophe:
  assumes "CHR 0x27 \<in> set pat" "CHR 0x27 \<notin> set s"
  shows "\<not> match_ci pat s"
proof
  assume "match_ci pat s"
  then have eq: "map lower_char pat = map lower_char (take (length pat) s)"
    by (simp add: match_ci_iff)
  have "lower_char (CHR 0x27) \<in> set (map lower_char pat)"
    using assms(1) by (simp only: set_map) (rule imageI)
  then have "CHR 0x27 \<in> set (map lower_char (take (length pat) s))"
    unfolding eq by (simp add: lower_char_chars)
  then obtain c where "c \<in> set (take (length pat) s)" "lower_char c = CHR 0x27"
    by auto
  then have "CHR 0x27 \<in> set s"
    using lower_char_apostrophe by (metis in_set_takeD)
  with assms(2) show False by simp
qed

lemma sub_contraction_no_apostrophe:
  "CHR 0x27 \<in> set pat \<Longrightarrow> CHR 0x27 \<notin> set s \<Longrightarrow> sub_contraction pat repl prev s = s"
proof (induction s arbitrary: prev)
  case Nil
  then show ?case by simp
next
  case (Cons c cs)
  have "\<not> match_ci pat (c # cs)"
    using Cons.prems by (rule match_ci_apostrophe)
  moreover have "sub_contraction pat repl (Some c) cs = cs"
    using Cons by simp
  ultimately show ?case
    by (simp add: sub_contraction.simps(2) Let_def)
qed

lemma sub_possessive_no_apostrophe:
  "CHR 0x27 \<notin> set s \<Longrightarrow> sub_possessive prev s = s"
proof (induction s arbitrary: prev)
  case Nil
  then show ?case by simp
next
  case (Cons c cs)
  have "take 2 (dropWhile ascii_letter (c # cs)) \<noteq> [CHR 0x27, CHR ''s'']"
  proof
    assume "take 2 (dropWhile ascii_letter (c # cs)) = [CHR 0x27, CHR ''s'']"
    then have "CHR 0x27 \<in> set (take 2 (dropWhile ascii_letter (c # cs)))"
      by (simp only: list.set) simp
    then have "CHR 0x27 \<in> set (c # cs)"
      by (metis in_set_takeD set_dropWhileD)
    with Cons.prems show False by simp
  qed
  moreover have "sub_possessive (Some c) cs = cs"
    using Cons by simp
  ultimately show ?case
    by (simp only: sub_possessive.simps(2) Let_def simp_thms if_False)
qed

text \<open>A pattern of letters inside a word, behind a letter: there is no boundary.\<close>

lemma sub_contraction_inside_word:
  "ascii_letter l \<Longrightarrow> list_all ascii_letter u \<Longrightarrow>
   sub_contraction pat repl (Some l) (u @ s) = u @ sub_contraction pat repl (Some (last (l # u))) s"
proof (induction u arbitrary: l)
  case Nil
  then show ?case by simp
next
  case (Cons c u)
  have "\<not> at_boundary (Some l) (c # u @ s)"
    using Cons.prems by (simp add: at_boundary_def letter_word)
  then show ?case
    using Cons by (simp add: sub_contraction.simps(2) Let_def)
qed

lemma sub_contraction_at_space:
  assumes "pat \<noteq> []" "ascii_letter (hd pat)"
  shows "sub_contraction pat repl prev (CHR '' '' # s) =
           CHR '' '' # sub_contraction pat repl (Some (CHR '' '')) s"
proof -
  obtain p ps where pat: "pat = p # ps" "ascii_letter p"
    using assms by (cases pat) simp_all
  have "lower_char p \<noteq> lower_char (CHR '' '')"
    using pat(2) lower_char_space [of p] by (auto simp: lower_char_chars letter_classes)
  then have "\<not> match_ci pat (CHR '' '' # s)"
    unfolding pat by simp
  then show ?thesis
    by (simp add: sub_contraction.simps(2) Let_def)
qed

text \<open>
  A word at a boundary, followed by the end of the text or by a space, and a pattern of
  lower-case letters: the word is replaced exactly when its lower-case form is the pattern.
\<close>

lemma sub_contraction_word:
  assumes w: "plain_word w"
    and s: "s = [] \<or> (\<exists>s'. s = CHR '' '' # s')"
    and prev: "\<not> word_opt prev"
    and pat: "pat \<noteq> []" "CHR '' '' \<notin> set pat" "map lower_char pat = pat"
  shows "sub_contraction pat repl prev (w @ s) =
           (if lower w = pat then repl else w) @ sub_contraction pat repl (Some (last w)) s"
proof -
  obtain c cs where wc: "w = c # cs" "ascii_letter c" "list_all ascii_letter cs"
    using plain_word_Cons [OF w] by blast
  have wl: "list_all ascii_letter w" using w by (simp add: plain_word_def)
  have b1: "at_boundary prev (w @ s)"
    using prev wc by (simp add: at_boundary_def letter_word)
  have nws: "\<not> word_opt (next_char s)"
    using s by (auto simp: space_classes)
  have lastw: "ascii_letter (last w)"
    using wl w by (auto simp: plain_word_def list_all_iff)
  let ?n = "length pat"
  have cond: "(match_ci pat (w @ s) \<and>
               at_boundary (Some (last (take ?n (w @ s)))) (drop ?n (w @ s))) = (lower w = pat)"
  proof (cases "length w = ?n")
    case True
    then have "take ?n (w @ s) = w" "drop ?n (w @ s) = s" by simp_all
    then show ?thesis
      using True nws lastw pat(3)
      by (auto simp: match_ci_iff at_boundary_def letter_word lower_def)
  next
    case False
    have ne: "lower w \<noteq> pat"
      using False by (auto simp: lower_def)
    show ?thesis
    proof (cases "length w < ?n")
      case True
      have "\<not> match_ci pat (w @ s)"
      proof
        assume m: "match_ci pat (w @ s)"
        then have len: "?n \<le> length (w @ s)"
          and eq: "map lower_char pat = map lower_char (take ?n (w @ s))"
          by (simp_all add: match_ci_iff)
        from len True s obtain s' where s': "s = CHR '' '' # s'" by auto
        obtain k where k: "?n - length w = Suc k"
          using True by (metis Suc_diff_Suc)
        have "CHR '' '' \<in> set (take ?n (w @ s))"
          unfolding s' by (simp add: k)
        then have "lower_char (CHR '' '') \<in> set (map lower_char (take ?n (w @ s)))"
          by (simp only: set_map) (rule imageI)
        then have "CHR '' '' \<in> set pat"
          unfolding eq [symmetric] pat(3) by (simp add: lower_char_chars)
        then show False
          using pat(2) by simp
      qed
      then show ?thesis using ne by simp
    next
      case False
      with \<open>length w \<noteq> ?n\<close> have gt: "?n < length w" by simp
      have tk: "take ?n (w @ s) = take ?n w" "drop ?n (w @ s) = drop ?n w @ s"
        using gt by simp_all
      have "take ?n w \<noteq> []" using gt pat(1) by auto
      then have "last (take ?n w) \<in> set w"
        by (metis in_set_takeD last_in_set)
      then have l1: "re_word (last (take ?n w))"
        using wl by (auto simp: list_all_iff letter_word)
      have "drop ?n w \<noteq> []" using gt by simp
      then obtain d ds where d: "drop ?n w = d # ds" by (cases "drop ?n w") auto
      then have "d \<in> set w" by (metis in_set_dropD list.set_intros(1))
      then have l2: "re_word d"
        using wl by (auto simp: list_all_iff letter_word)
      have "\<not> at_boundary (Some (last (take ?n (w @ s)))) (drop ?n (w @ s))"
        unfolding tk d using l1 l2 by (simp add: at_boundary_def)
      then show ?thesis using ne by simp
    qed
  qed
  have inside: "sub_contraction pat repl (Some c) (cs @ s) =
                cs @ sub_contraction pat repl (Some (last w)) s"
    using sub_contraction_inside_word [OF wc(2,3)] unfolding wc by simp
  have step: "sub_contraction pat repl prev (w @ s) =
     (if match_ci pat (w @ s) \<and>
         at_boundary (Some (last (take ?n (w @ s)))) (drop ?n (w @ s))
      then repl @ sub_contraction pat repl (Some (last (take ?n (w @ s)))) (drop ?n (w @ s))
      else c # sub_contraction pat repl (Some c) (cs @ s))"
    using b1 pat(1) unfolding wc by (simp add: sub_contraction.simps(2) Let_def)
  show ?thesis
  proof (cases "lower w = pat")
    case True
    then have len: "length w = ?n" by (auto simp: lower_def)
    have tk: "take ?n (w @ s) = w" "drop ?n (w @ s) = s"
      using len by simp_all
    show ?thesis
      unfolding step cond unfolding tk using True by simp
  next
    case False
    show ?thesis
      unfolding step cond inside using False by (simp add: wc(1))
  qed
qed

lemma sub_contraction_plain:
  assumes pat: "pat \<noteq> []" "CHR '' '' \<notin> set pat" "map lower_char pat = pat"
    and hd: "ascii_letter (hd pat)"
    and rs: "rs \<noteq> []"
  shows "list_all plain_word ws \<Longrightarrow> \<not> word_opt prev \<Longrightarrow>
         sub_contraction pat (join_spaces rs) prev (join_spaces ws) =
           join_spaces (concat (map (\<lambda>w. if lower w = pat then rs else [w]) ws))"
proof (induction ws arbitrary: prev)
  case Nil
  then show ?case by simp
next
  case (Cons w ws)
  let ?f = "\<lambda>w. if lower w = pat then rs else [w]"
  have pw: "plain_word w" and pws: "list_all plain_word ws"
    using Cons.prems(1) by simp_all
  have fw: "join_spaces (?f w) = (if lower w = pat then join_spaces rs else w)"
    by simp
  show ?case
  proof (cases "ws = []")
    case True
    have "sub_contraction pat (join_spaces rs) prev (w @ []) =
            (if lower w = pat then join_spaces rs else w) @
            sub_contraction pat (join_spaces rs) (Some (last w)) []"
      using pw _ Cons.prems(2) pat by (rule sub_contraction_word) simp
    then show ?thesis
      using True by simp
  next
    case False
    have 1: "sub_contraction pat (join_spaces rs) prev (w @ CHR '' '' # join_spaces ws) =
            (if lower w = pat then join_spaces rs else w) @
            sub_contraction pat (join_spaces rs) (Some (last w)) (CHR '' '' # join_spaces ws)"
      using pw _ Cons.prems(2) pat by (rule sub_contraction_word) simp
    have 2: "sub_contraction pat (join_spaces rs) (Some (last w)) (CHR '' '' # join_spaces ws) =
             CHR '' '' # sub_contraction pat (join_spaces rs) (Some (CHR '' '')) (join_spaces ws)"
      using pat(1) hd by (rule sub_contraction_at_space)
    have 3: "sub_contraction pat (join_spaces rs) (Some (CHR '' '')) (join_spaces ws) =
             join_spaces (concat (map ?f ws))"
      using pws by (rule Cons.IH) (simp add: space_classes)
    have ne: "?f w \<noteq> []" "concat (map ?f ws) \<noteq> []"
      using rs False by (cases ws; simp)+
    have "join_spaces (concat (map ?f (w # ws))) =
          join_spaces (?f w) @ CHR '' '' # join_spaces (concat (map ?f ws))"
      using join_spaces_append [OF ne] by simp
    then show ?thesis
      using False 1 2 3 fw by (simp add: join_spaces_Cons)
  qed
qed

lemma foldl_apostrophe_keys:
  "list_all (\<lambda>(k, v). CHR 0x27 \<in> set k) entries \<Longrightarrow> CHR 0x27 \<notin> set s \<Longrightarrow>
   foldl (\<lambda>t (contraction, expansion). sub_contraction contraction (join_spaces expansion) None t)
     s entries = s"
  by (induction entries) (auto simp: sub_contraction_no_apostrophe)

lemma table_around_cannot:
  "STANDARD_CONTRACTIONS =
     take 38 STANDARD_CONTRACTIONS @ (''cannot'', [''can'', ''not'']) # drop 39 STANDARD_CONTRACTIONS"
  "list_all (\<lambda>(k, v). CHR 0x27 \<in> set k) (take 38 STANDARD_CONTRACTIONS)"
  "list_all (\<lambda>(k, v). CHR 0x27 \<in> set k) (drop 39 STANDARD_CONTRACTIONS)"
  by (simp_all add: STANDARD_CONTRACTIONS_def)

lemma plain_no_apostrophe:
  "list_all plain_word ws \<Longrightarrow> CHR 0x27 \<notin> set (join_spaces ws)"
  using plain_text_chars letter_classes(4) by fastforce

lemma cannot_pattern:
  "''cannot'' \<noteq> []" "CHR '' '' \<notin> set ''cannot''" "map lower_char ''cannot'' = ''cannot''"
  "plain_word ''can''" "plain_word ''not''" "lower ''can'' = ''can''" "lower ''not'' = ''not''"
  by (simp_all add: ascii_letter_chars lower_char_chars plain_word_def lower_def)

lemma expanded_plain:
  "list_all plain_word ws \<Longrightarrow>
   list_all plain_word (concat (map (\<lambda>w. if lower w = ''cannot'' then [''can'', ''not''] else [w]) ws))"
  by (induction ws) (simp_all add: cannot_pattern)

lemma expand_standard_plain:
  assumes "list_all plain_word ws"
  shows "expand_standard (join_spaces ws) =
           join_spaces (concat (map (\<lambda>w. if lower w = ''cannot'' then [''can'', ''not''] else [w]) ws))"
proof -
  let ?step = "\<lambda>t (contraction, expansion). sub_contraction contraction (join_spaces expansion) None t"
  let ?ws' = "concat (map (\<lambda>w. if lower w = ''cannot'' then [''can'', ''not''] else [w]) ws)"
  have "expand_standard (join_spaces ws) =
        foldl ?step (?step (foldl ?step (join_spaces ws) (take 38 STANDARD_CONTRACTIONS))
                        (''cannot'', [''can'', ''not'']))
              (drop 39 STANDARD_CONTRACTIONS)"
    unfolding expand_standard_def by (subst table_around_cannot(1)) (simp only: foldl_append foldl_Cons)
  also have "foldl ?step (join_spaces ws) (take 38 STANDARD_CONTRACTIONS) = join_spaces ws"
    using table_around_cannot(2) plain_no_apostrophe [OF assms] by (rule foldl_apostrophe_keys)
  also have "?step (join_spaces ws) (''cannot'', [''can'', ''not'']) = join_spaces ?ws'"
    using sub_contraction_plain [OF cannot_pattern(1,2,3) _ _ assms, of "[''can'', ''not'']" None]
    by (simp add: ascii_letter_chars)
  also have "foldl ?step (join_spaces ?ws') (drop 39 STANDARD_CONTRACTIONS) = join_spaces ?ws'"
    using table_around_cannot(3) plain_no_apostrophe [OF expanded_plain [OF assms]]
    by (rule foldl_apostrophe_keys)
  finally show ?thesis .
qed

lemma letters_apart_plain:
  "(\<And>c. c \<in> set s \<Longrightarrow> \<not> other_word c) \<Longrightarrow> letters_apart s"
  by (induction s rule: letters_apart.induct) auto

lemma findall_bounded_plain:
  assumes "list_all plain_word ws"
  shows "findall_bounded None (join_spaces ws) = ws"
proof -
  have "\<not> other_word c" if "c \<in> set (join_spaces ws)" for c
    using plain_text_chars [OF assms that] by (auto simp: space_classes letter_classes)
  then have "letters_apart (join_spaces ws)" by (rule letters_apart_plain)
  then have "findall_bounded None (join_spaces ws) = findall_alpha (join_spaces ws)"
    by (simp add: findall_bounded_alpha)
  then show ?thesis
    using assms by (simp add: findall_alpha_plain)
qed





section \<open>The key cannot\<close>







section \<open>Possessives that the table does not touch\<close>

lemma table_keys_shape: "list_all key_shape (keys STANDARD_CONTRACTIONS)"
  by (simp add: STANDARD_CONTRACTIONS_def keys_def key_shape_def ascii_letter_chars
        lower_char_chars)

lemma space_in_take:
  "length xs < n \<Longrightarrow> CHR '' '' \<in> set (take n (xs @ CHR '' '' # s))"
proof -
  assume "length xs < n"
  then obtain k where "n - length xs = Suc k" by (metis Suc_diff_Suc)
  then show ?thesis by simp
qed

lemma match_ci_space:
  assumes "match_ci p t" "CHR '' '' \<in> set (take (length p) t)" "map lower_char p = p"
  shows "CHR '' '' \<in> set p"
proof -
  have eq: "p = map lower_char (take (length p) t)"
    using assms(1,3) by (simp add: match_ci_iff)
  have "lower_char (CHR '' '') \<in> set (map lower_char (take (length p) t))"
    using assms(2) by (simp only: set_map) (rule imageI)
  then show ?thesis
    using eq by (simp add: lower_char_chars)
qed

lemma match_ci_short: "length t < length p \<Longrightarrow> \<not> match_ci p t"
  by (simp add: match_ci_iff)

lemma match_ci_hd:
  "p \<noteq> [] \<Longrightarrow> match_ci p (c # cs) \<Longrightarrow> lower_char (hd p) = lower_char c"
  by (cases p) simp_all

lemma sub_contraction_skip:
  "\<not> (match_ci pat (c # cs) \<and>
      at_boundary (Some (last (take (length pat) (c # cs)))) (drop (length pat) (c # cs))) \<Longrightarrow>
   sub_contraction pat repl prev (c # cs) = c # sub_contraction pat repl (Some c) cs"
  by (auto simp: sub_contraction.simps(2) Let_def)

text \<open>
  A possessive at a boundary, followed by the end of the text or by a space, and a key that
  is neither the possessive nor its base word: nothing is replaced.
\<close>

lemma sub_contraction_possessive:
  assumes w: "plain_word w"
    and s: "s = [] \<or> (\<exists>s'. s = CHR '' '' # s')"
    and p: "key_shape p"
    and off: "lower (w @ [CHR 0x27, CHR ''s'']) \<noteq> p" "lower w \<noteq> p"
  shows "sub_contraction p repl prev (w @ CHR 0x27 # CHR ''s'' # s) =
           w @ CHR 0x27 # CHR ''s'' # sub_contraction p repl (Some (CHR ''s'')) s"
proof -
  obtain c cs where wc: "w = c # cs" "ascii_letter c" "list_all ascii_letter cs"
    using plain_word_Cons [OF w] by blast
  have wl: "list_all ascii_letter w" using w by (simp add: plain_word_def)
  have shape: "3 \<le> length p" "ascii_letter (hd p)" "ascii_letter (last p)"
    "CHR '' '' \<notin> set p" "map lower_char p = p" "p \<noteq> []"
    using p by (auto simp: key_shape_def)
  let ?n = "length p"
  let ?t = "w @ CHR 0x27 # CHR ''s'' # s"
  have no0: "\<not> (match_ci p ?t \<and> at_boundary (Some (last (take ?n ?t))) (drop ?n ?t))"
  proof
    assume a: "match_ci p ?t \<and> at_boundary (Some (last (take ?n ?t))) (drop ?n ?t)"
    then have m: "match_ci p ?t" and b: "at_boundary (Some (last (take ?n ?t))) (drop ?n ?t)"
      by simp_all
    have eq: "p = map lower_char (take ?n ?t)" and len: "?n \<le> length ?t"
      using m shape(5) by (simp_all add: match_ci_iff)
    consider "?n < length w" | "?n = length w" | "?n = Suc (length w)"
      | "?n = Suc (Suc (length w))" | "Suc (Suc (length w)) < ?n"
      by linarith
    then show False
    proof cases
      case 1
      have tk: "take ?n ?t = take ?n w" "drop ?n ?t = drop ?n w @ CHR 0x27 # CHR ''s'' # s"
        using 1 by simp_all
      have "take ?n w \<noteq> []" using 1 shape(6) by auto
      then have "last (take ?n w) \<in> set w"
        by (metis in_set_takeD last_in_set)
      then have l1: "re_word (last (take ?n w))"
        using wl by (auto simp: list_all_iff letter_word)
      have "drop ?n w \<noteq> []" using 1 by simp
      then obtain d ds where d: "drop ?n w = d # ds" by (cases "drop ?n w") auto
      then have "d \<in> set w" by (metis in_set_dropD list.set_intros(1))
      then have l2: "re_word d"
        using wl by (auto simp: list_all_iff letter_word)
      show False
        using b unfolding tk d using l1 l2 by (simp add: at_boundary_def)
    next
      case 2
      then have "take ?n ?t = w" by simp
      then have "p = lower w" using eq by (simp add: lower_def)
      with off(2) show False by simp
    next
      case 3
      then have "take ?n ?t = w @ [CHR 0x27]" by simp
      then have "p = map lower_char w @ [CHR 0x27]"
        using eq by (simp add: lower_char_chars)
      then have "last p = CHR 0x27" by simp
      with shape(3) show False by (simp add: ascii_letter_chars)
    next
      case 4
      then have "take ?n ?t = w @ [CHR 0x27, CHR ''s'']" by simp
      then have "p = lower (w @ [CHR 0x27, CHR ''s''])"
        using eq by (simp add: lower_def)
      with off(1) show False by simp
    next
      case 5
      show False
      proof (cases "s = []")
        case True
        then show False using len 5 by simp
      next
        case False
        then obtain s' where s': "s = CHR '' '' # s'" using s by auto
        have "CHR '' '' \<in> set (take ?n ((w @ [CHR 0x27, CHR ''s'']) @ CHR '' '' # s'))"
          using 5 by (intro space_in_take) simp
        then have sp: "CHR '' '' \<in> set (take ?n ?t)"
          unfolding s' by simp
        from m sp shape(5) have "CHR '' '' \<in> set p" by (rule match_ci_space)
        with shape(4) show False by simp
      qed
    qed
  qed
  have b0: "sub_contraction p repl prev ?t =
            c # sub_contraction p repl (Some c) (cs @ CHR 0x27 # CHR ''s'' # s)"
    using no0 unfolding wc by (simp add: sub_contraction_skip)
  have b1: "sub_contraction p repl (Some c) (cs @ CHR 0x27 # CHR ''s'' # s) =
            cs @ sub_contraction p repl (Some (last w)) (CHR 0x27 # CHR ''s'' # s)"
    using sub_contraction_inside_word [OF wc(2,3)] unfolding wc by simp
  have "\<not> match_ci p (CHR 0x27 # CHR ''s'' # s)"
  proof
    assume "match_ci p (CHR 0x27 # CHR ''s'' # s)"
    then have "lower_char (hd p) = CHR 0x27"
      using match_ci_hd [OF shape(6)] by (simp add: lower_char_chars)
    then have "hd p = CHR 0x27" by (rule lower_char_apostrophe)
    with shape(2) show False by (simp add: ascii_letter_chars)
  qed
  then have b2: "sub_contraction p repl (Some (last w)) (CHR 0x27 # CHR ''s'' # s) =
            CHR 0x27 # sub_contraction p repl (Some (CHR 0x27)) (CHR ''s'' # s)"
    by (simp add: sub_contraction_skip)
  have "\<not> match_ci p (CHR ''s'' # s)"
  proof (cases "s = []")
    case True
    then show ?thesis using shape(1) by (simp add: match_ci_iff)
  next
    case False
    then obtain s' where s': "s = CHR '' '' # s'" using s by auto
    have "CHR '' '' \<in> set (take ?n ([CHR ''s''] @ CHR '' '' # s'))"
      using shape(1) by (intro space_in_take) simp
    then have sp: "CHR '' '' \<in> set (take ?n (CHR ''s'' # s))"
      unfolding s' by simp
    show ?thesis
    proof
      assume "match_ci p (CHR ''s'' # s)"
      from this sp shape(5) have "CHR '' '' \<in> set p" by (rule match_ci_space)
      with shape(4) show False by simp
    qed
  qed
  then have b3: "sub_contraction p repl (Some (CHR 0x27)) (CHR ''s'' # s) =
            CHR ''s'' # sub_contraction p repl (Some (CHR ''s'')) s"
    by (simp add: sub_contraction_skip)
  show ?thesis
    unfolding b0 b1 b2 b3 by (simp add: wc(1))
qed

lemma sub_contraction_item:
  assumes "plain_word (fst item)"
    and s: "s = [] \<or> (\<exists>s'. s = CHR '' '' # s')"
    and prev: "\<not> word_opt prev"
    and p: "key_shape p"
    and off: "lower (written item) \<noteq> p" "lower (fst item) \<noteq> p"
  shows "sub_contraction p repl prev (written item @ s) =
           written item @ sub_contraction p repl (Some (last (written item))) s"
proof (cases item)
  case (Pair w possessive)
  have w: "plain_word w" using assms(1) Pair by simp
  show ?thesis
  proof (cases possessive)
    case True
    have off': "lower (w @ [CHR 0x27, CHR ''s'']) \<noteq> p" "lower w \<noteq> p"
      using off Pair True by simp_all
    have "sub_contraction p repl prev (w @ CHR 0x27 # CHR ''s'' # s) =
           w @ CHR 0x27 # CHR ''s'' # sub_contraction p repl (Some (CHR ''s'')) s"
      using w s p off' by (rule sub_contraction_possessive)
    then show ?thesis using Pair True by simp
  next
    case False
    have "sub_contraction p repl prev (w @ s) =
           (if lower w = p then repl else w) @ sub_contraction p repl (Some (last w)) s"
      using w s prev p by (intro sub_contraction_word) (auto simp: key_shape_def)
    then show ?thesis using off Pair False by simp
  qed
qed

lemma join_written_Cons:
  "join_spaces (map written (item # items)) =
     (if items = [] then written item
      else written item @ CHR '' '' # join_spaces (map written items))"
  by (simp add: join_spaces_Cons)

lemma sub_contraction_off:
  assumes p: "key_shape p"
  shows "list_all (\<lambda>item. plain_word (fst item) \<and> lower (written item) \<noteq> p \<and>
                     lower (fst item) \<noteq> p) items \<Longrightarrow>
         \<not> word_opt prev \<Longrightarrow>
         sub_contraction p repl prev (join_spaces (map written items)) =
           join_spaces (map written items)"
proof (induction items arbitrary: prev)
  case Nil
  then show ?case by simp
next
  case (Cons item items)
  have it: "plain_word (fst item)" "lower (written item) \<noteq> p" "lower (fst item) \<noteq> p"
    using Cons.prems(1) by simp_all
  have rest: "list_all (\<lambda>item. plain_word (fst item) \<and> lower (written item) \<noteq> p \<and>
                     lower (fst item) \<noteq> p) items"
    using Cons.prems(1) by simp
  show ?case
  proof (cases "items = []")
    case True
    have "sub_contraction p repl prev (written item @ []) =
           written item @ sub_contraction p repl (Some (last (written item))) []"
      using it(1) _ Cons.prems(2) p it(2,3) by (rule sub_contraction_item) simp
    then show ?thesis using True by simp
  next
    case False
    have 1: "sub_contraction p repl prev (written item @ CHR '' '' # join_spaces (map written items)) =
           written item @ sub_contraction p repl (Some (last (written item)))
             (CHR '' '' # join_spaces (map written items))"
      using it(1) _ Cons.prems(2) p it(2,3) by (rule sub_contraction_item) simp
    have 2: "sub_contraction p repl (Some (last (written item)))
               (CHR '' '' # join_spaces (map written items)) =
             CHR '' '' # sub_contraction p repl (Some (CHR '' '')) (join_spaces (map written items))"
      using p by (intro sub_contraction_at_space) (auto simp: key_shape_def)
    have 3: "sub_contraction p repl (Some (CHR '' '')) (join_spaces (map written items)) =
             join_spaces (map written items)"
      using rest by (rule Cons.IH) (simp add: space_classes)
    show ?thesis
      unfolding join_written_Cons using False 1 2 3 by simp
  qed
qed

lemma foldl_off_table:
  "list_all (\<lambda>(k, v). key_shape k \<and>
       list_all (\<lambda>item. plain_word (fst item) \<and> lower (written item) \<noteq> k \<and>
                         lower (fst item) \<noteq> k) items) entries \<Longrightarrow>
   foldl (\<lambda>t (contraction, expansion). sub_contraction contraction (join_spaces expansion) None t)
     (join_spaces (map written items)) entries = join_spaces (map written items)"
  by (induction entries) (auto simp: sub_contraction_off)

lemma expand_standard_off_table:
  assumes "list_all (\<lambda>item. plain_word (fst item) \<and> off_table item) items"
  shows "expand_standard (join_spaces (map written items)) = join_spaces (map written items)"
proof -
  have "key_shape k \<and>
       list_all (\<lambda>item. plain_word (fst item) \<and> lower (written item) \<noteq> k \<and>
                         lower (fst item) \<noteq> k) items"
    if "(k, v) \<in> set STANDARD_CONTRACTIONS" for k v
  proof -
    have k: "k \<in> set (keys STANDARD_CONTRACTIONS)"
      using that by (force simp: keys_def)
    then have "key_shape k"
      using table_keys_shape by (simp add: list_all_iff)
    moreover have "plain_word (fst item) \<and> lower (written item) \<noteq> k \<and> lower (fst item) \<noteq> k"
      if "item \<in> set items" for item
      using assms that k by (auto simp: list_all_iff off_table_def)
    ultimately show ?thesis by (simp add: list_all_iff)
  qed
  then have "list_all (\<lambda>(k, v). key_shape k \<and>
       list_all (\<lambda>item. plain_word (fst item) \<and> lower (written item) \<noteq> k \<and>
                         lower (fst item) \<noteq> k) items) STANDARD_CONTRACTIONS"
    by (auto simp: list_all_iff)
  then show ?thesis
    unfolding expand_standard_def by (rule foldl_off_table)
qed

lemma sub_possessive_skip:
  "\<not> (at_boundary prev (c # cs) \<and> takeWhile ascii_letter (c # cs) \<noteq> [] \<and>
      take 2 (dropWhile ascii_letter (c # cs)) = [CHR 0x27, CHR ''s''] \<and>
      at_boundary (Some (CHR ''s'')) (drop 2 (dropWhile ascii_letter (c # cs)))) \<Longrightarrow>
   sub_possessive prev (c # cs) = c # sub_possessive (Some c) cs"
  by (simp only: sub_possessive.simps(2) Let_def if_False)

lemma sub_possessive_inside_word:
  "ascii_letter l \<Longrightarrow> list_all ascii_letter u \<Longrightarrow>
   sub_possessive (Some l) (u @ s) = u @ sub_possessive (Some (last (l # u))) s"
proof (induction u arbitrary: l)
  case Nil
  then show ?case by simp
next
  case (Cons c u)
  have "\<not> at_boundary (Some l) (c # u @ s)"
    using Cons.prems by (simp add: at_boundary_def letter_word)
  then have "sub_possessive (Some l) (c # u @ s) = c # sub_possessive (Some c) (u @ s)"
    by (intro sub_possessive_skip) simp
  then show ?case
    using Cons by simp
qed

lemma sub_possessive_at_space:
  "sub_possessive prev (CHR '' '' # s) = CHR '' '' # sub_possessive (Some (CHR '' '')) s"
  by (rule sub_possessive_skip) (simp add: space_classes)

lemma sub_possessive_item:
  assumes "plain_word (fst item)"
    and s: "s = [] \<or> (\<exists>s'. s = CHR '' '' # s')"
    and prev: "\<not> word_opt prev"
  shows "sub_possessive prev (written item @ s) =
           fst item @ sub_possessive (Some (last (written item))) s"
proof (cases item)
  case (Pair w possessive)
  have w: "plain_word w" using assms(1) Pair by simp
  obtain c cs where wc: "w = c # cs" "ascii_letter c" "list_all ascii_letter cs"
    using plain_word_Cons [OF w] by blast
  have wl: "list_all ascii_letter w" using w by (simp add: plain_word_def)
  show ?thesis
  proof (cases possessive)
    case True
    have run: "takeWhile ascii_letter (w @ CHR 0x27 # CHR ''s'' # s) = w"
      "dropWhile ascii_letter (w @ CHR 0x27 # CHR ''s'' # s) = CHR 0x27 # CHR ''s'' # s"
      using takeWhile_plain [OF wl, of "CHR 0x27 # CHR ''s'' # s"]
      by (simp_all add: ascii_letter_chars)
    have b1: "at_boundary prev (w @ CHR 0x27 # CHR ''s'' # s)"
      using prev wc by (simp add: at_boundary_def letter_word)
    have b2: "at_boundary (Some (CHR ''s'')) s"
      using s by (auto simp: at_boundary_def re_word_chars)
    have "sub_possessive prev (w @ CHR 0x27 # CHR ''s'' # s) =
            w @ sub_possessive (Some (CHR ''s'')) s"
      using b1 b2 run w unfolding wc
      by (simp add: sub_possessive.simps(2) Let_def del: takeWhile.simps dropWhile.simps)
    then show ?thesis using Pair True by simp
  next
    case False
    have run: "takeWhile ascii_letter (w @ s) = w" "dropWhile ascii_letter (w @ s) = s"
      using takeWhile_plain [OF wl, of s] s by (auto simp: space_classes)
    have "take 2 s \<noteq> [CHR 0x27, CHR ''s'']"
      using s by auto
    then have "sub_possessive prev (c # cs @ s) = c # sub_possessive (Some c) (cs @ s)"
      using run unfolding wc by (intro sub_possessive_skip) (simp del: takeWhile.simps dropWhile.simps)
    moreover have "sub_possessive (Some c) (cs @ s) = cs @ sub_possessive (Some (last w)) s"
      using sub_possessive_inside_word [OF wc(2,3)] unfolding wc by simp
    ultimately show ?thesis using Pair False wc(1) by simp
  qed
qed

lemma sub_possessive_written:
  "list_all (\<lambda>item. plain_word (fst item)) items \<Longrightarrow> \<not> word_opt prev \<Longrightarrow>
   sub_possessive prev (join_spaces (map written items)) = join_spaces (map fst items)"
proof (induction items arbitrary: prev)
  case Nil
  then show ?case by simp
next
  case (Cons item items)
  have it: "plain_word (fst item)" and rest: "list_all (\<lambda>item. plain_word (fst item)) items"
    using Cons.prems(1) by simp_all
  show ?case
  proof (cases "items = []")
    case True
    have "sub_possessive prev (written item @ []) =
            fst item @ sub_possessive (Some (last (written item))) []"
      using it _ Cons.prems(2) by (rule sub_possessive_item) simp
    then show ?thesis using True by simp
  next
    case False
    have 1: "sub_possessive prev (written item @ CHR '' '' # join_spaces (map written items)) =
            fst item @ sub_possessive (Some (last (written item)))
              (CHR '' '' # join_spaces (map written items))"
      using it _ Cons.prems(2) by (rule sub_possessive_item) simp
    have 3: "sub_possessive (Some (CHR '' '')) (join_spaces (map written items)) =
             join_spaces (map fst items)"
      using rest by (rule Cons.IH) (simp add: space_classes)
    show ?thesis
      unfolding join_written_Cons using False 1 3
      by (simp add: sub_possessive_at_space join_spaces_Cons)
  qed
qed

lemma method1_off_table:
  assumes "list_all (\<lambda>item. plain_word (fst item) \<and> off_table item) items"
  shows "expand_contractions (join_spaces (map written items)) = join_spaces (map fst items)"
    and "word_list (count_words_method1 (join_spaces (map written items))) =
           map (\<lambda>item. lower (fst item)) items"
proof -
  have pl: "list_all (\<lambda>item. plain_word (fst item)) items"
    using assms by (simp add: list_all_iff)
  show e: "expand_contractions (join_spaces (map written items)) = join_spaces (map fst items)"
    unfolding expand_contractions_def expand_standard_off_table [OF assms]
    using pl by (rule sub_possessive_written) simp
  have "list_all plain_word (map fst items)"
    using pl by (simp add: list_all_iff)
  then have "findall_bounded None (join_spaces (map fst items)) = map fst items"
    by (rule findall_bounded_plain)
  then show "word_list (count_words_method1 (join_spaces (map written items))) =
           map (\<lambda>item. lower (fst item)) items"
    by (simp add: count_words_method1_def make_result_def
          extract_words_with_smart_contractions_def e Let_def comp_def)
qed

lemma expand_standard_cannots: "expand_standard ''Cannot's story'' = ''can not's story''"
  by (simp only: method1_eval cong: if_weak_cong)

lemma possessive_cannots: "sub_possessive None ''can not's story'' = ''can not story''"
  by (simp only: eval_rules cong: if_weak_cong)

lemma words_cannots: "map lower (findall_bounded None ''can not story'') = [''can'', ''not'', ''story'']"
  by (simp only: eval_rules cong: if_weak_cong)

section \<open>Strategy A works word by word\<close>

lemma ascii_letter_lower_char: "ascii_letter (lower_char c) \<Longrightarrow> ascii_letter c"
  by (auto simp: ascii_letter_def code_point_lower_char Let_def split: if_splits)

lemma barrier_classes:
  assumes "barrier b"
  shows "\<not> re_word b" "\<not> ascii_letter b" "b \<noteq> CHR 0x27" "\<not> word_opt (Some b)"
  using assms by (auto simp: barrier_def letter_word)

lemma table_keys_letters:
  "list_all (\<lambda>(k, v). key_letters k \<and> map lower_char k = k \<and> k \<noteq> []) STANDARD_CONTRACTIONS"
  by (simp add: STANDARD_CONTRACTIONS_def key_letters_def ascii_letter_chars lower_char_chars)

lemma match_ci_letters:
  assumes "key_letters p" "map lower_char p = p" "match_ci p t" "x \<in> set (take (length p) t)"
  shows "ascii_letter x \<or> x = CHR 0x27"
proof -
  have eq: "p = map lower_char (take (length p) t)"
    using assms(2,3) by (simp add: match_ci_iff)
  have "lower_char x \<in> set (map lower_char (take (length p) t))"
    using assms(4) by (simp only: set_map) (rule imageI)
  then have "lower_char x \<in> set p" using eq by simp
  then have "ascii_letter (lower_char x) \<or> lower_char x = CHR 0x27"
    using assms(1) by (auto simp: key_letters_def list_all_iff)
  then show ?thesis
    using ascii_letter_lower_char lower_char_apostrophe by blast
qed

lemma sub_contraction_prev:
  "word_opt prev = word_opt prev' \<Longrightarrow>
   sub_contraction p repl prev s = sub_contraction p repl prev' s"
  by (cases s) (simp_all add: sub_contraction.simps(2) at_boundary_def Let_def)

lemma next_char_barrier:
  "barrier b \<Longrightarrow> word_opt (next_char (xs @ b # ys)) = word_opt (next_char xs)"
  by (cases xs) (simp_all add: barrier_def)

lemma sub_contraction_skip_boundary:
  "\<not> (at_boundary prev (c # cs) \<and> match_ci pat (c # cs) \<and>
      at_boundary (Some (last (take (length pat) (c # cs)))) (drop (length pat) (c # cs))) \<Longrightarrow>
   sub_contraction pat repl prev (c # cs) = c # sub_contraction pat repl (Some c) cs"
  by (auto simp: sub_contraction.simps(2) Let_def)

lemma take_drop_short:
  "n \<le> length xs \<Longrightarrow> take n (xs @ ys) = take n xs \<and> drop n (xs @ ys) = drop n xs @ ys"
  by simp

lemma take_long:
  "length xs < n \<Longrightarrow> b \<in> set (take n (xs @ b # ys))"
proof -
  assume "length xs < n"
  then obtain k where "n - length xs = Suc k" by (metis Suc_diff_Suc)
  then show ?thesis by simp
qed

lemma sub_contraction_barrier:
  assumes b: "barrier b" and p: "key_letters p" "map lower_char p = p" "p \<noteq> []"
  shows "sub_contraction p repl prev (xs @ b # ys) =
           sub_contraction p repl prev xs @ b # sub_contraction p repl None ys"
proof (induction xs arbitrary: prev rule: length_induct)
  case (1 xs)
  let ?n = "length p"
  show ?case
  proof (cases xs)
    case Nil
    have "\<not> match_ci p (b # ys)"
    proof
      assume m: "match_ci p (b # ys)"
      have "b \<in> set (take ?n (b # ys))" using p(3) by (cases p) simp_all
      with p(1,2) m have "ascii_letter b \<or> b = CHR 0x27" by (rule match_ci_letters)
      with b show False by (simp add: barrier_classes)
    qed
    then have "sub_contraction p repl prev (b # ys) = b # sub_contraction p repl (Some b) ys"
      by (intro sub_contraction_skip) simp
    moreover have "sub_contraction p repl (Some b) ys = sub_contraction p repl None ys"
      using b by (intro sub_contraction_prev) (simp add: barrier_def)
    ultimately show ?thesis using Nil by simp
  next
    case (Cons c cs)
    let ?L = "c # cs @ b # ys"
    let ?S = "c # cs"
    have cond: "(match_ci p ?L \<and> at_boundary (Some (last (take ?n ?L))) (drop ?n ?L)) =
                (match_ci p ?S \<and> at_boundary (Some (last (take ?n ?S))) (drop ?n ?S))"
    proof (cases "?n \<le> length ?S")
      case True
      then have tk: "take ?n ?L = take ?n ?S" "drop ?n ?L = drop ?n ?S @ b # ys"
        using take_drop_short [of ?n ?S "b # ys"] by simp_all
      have m: "match_ci p ?L = match_ci p ?S"
        unfolding match_ci_iff tk using True by simp
      show ?thesis
        unfolding m tk at_boundary_def next_char_barrier [OF b] ..
    next
      case False
      then have s: "\<not> match_ci p ?S" by (simp add: match_ci_iff)
      have "\<not> match_ci p ?L"
      proof
        assume m: "match_ci p ?L"
        have "b \<in> set (take ?n (?S @ b # ys))"
          using False by (intro take_long) simp
        then have "b \<in> set (take ?n ?L)" by simp
        with p(1,2) m have "ascii_letter b \<or> b = CHR 0x27" by (rule match_ci_letters)
        with b show False by (simp add: barrier_classes)
      qed
      with s show ?thesis by simp
    qed
    have bd: "at_boundary prev ?L = at_boundary prev ?S"
      by (simp add: at_boundary_def)
    show ?thesis
    proof (cases "at_boundary prev ?S \<and> match_ci p ?S \<and>
                  at_boundary (Some (last (take ?n ?S))) (drop ?n ?S)")
      case True
      then have le: "?n \<le> length ?S" by (simp add: match_ci_iff)
      then have tk: "take ?n ?L = take ?n ?S" "drop ?n ?L = drop ?n ?S @ b # ys"
        using take_drop_short [of ?n ?S "b # ys"] by simp_all
      have L: "sub_contraction p repl prev ?L =
               repl @ sub_contraction p repl (Some (last (take ?n ?S))) (drop ?n ?S @ b # ys)"
        using True cond bd p(3) tk
        by (simp add: sub_contraction.simps(2) [of p repl prev c "cs @ b # ys"] Let_def)
      have S: "sub_contraction p repl prev ?S =
               repl @ sub_contraction p repl (Some (last (take ?n ?S))) (drop ?n ?S)"
        using True p(3) by (simp add: sub_contraction.simps(2) Let_def)
      have "length (drop ?n ?S) < length xs"
        using p(3) Cons by (cases p) simp_all
      then have "sub_contraction p repl (Some (last (take ?n ?S))) (drop ?n ?S @ b # ys) =
            sub_contraction p repl (Some (last (take ?n ?S))) (drop ?n ?S) @
            b # sub_contraction p repl None ys"
        using 1 by blast
      then show ?thesis
        unfolding Cons using L S by simp
    next
      case False
      then have "\<not> (at_boundary prev ?L \<and> match_ci p ?L \<and>
                  at_boundary (Some (last (take ?n ?L))) (drop ?n ?L))"
        using cond bd by blast
      then have L: "sub_contraction p repl prev ?L =
                    c # sub_contraction p repl (Some c) (cs @ b # ys)"
        by (rule sub_contraction_skip_boundary)
      have S: "sub_contraction p repl prev ?S = c # sub_contraction p repl (Some c) cs"
        using False by (rule sub_contraction_skip_boundary)
      have "sub_contraction p repl (Some c) (cs @ b # ys) =
            sub_contraction p repl (Some c) cs @ b # sub_contraction p repl None ys"
        using 1 Cons by simp
      then show ?thesis
        unfolding Cons using L S by simp
    qed
  qed
qed

lemma sub_possessive_prev:
  "word_opt prev = word_opt prev' \<Longrightarrow> sub_possessive prev s = sub_possessive prev' s"
  by (cases s) (simp_all add: sub_possessive.simps(2) at_boundary_def Let_def)

lemma findall_bounded_prev:
  "word_opt prev = word_opt prev' \<Longrightarrow> findall_bounded prev s = findall_bounded prev' s"
  by (cases s) (simp_all add: findall_bounded.simps(2) at_boundary_def Let_def)

lemma run_before_barrier:
  assumes "barrier b"
  shows "takeWhile ascii_letter (xs @ b # ys) = takeWhile ascii_letter xs"
    and "dropWhile ascii_letter (xs @ b # ys) = dropWhile ascii_letter xs @ b # ys"
  using assms by (simp_all add: takeWhile_tail dropWhile_append3 barrier_classes)

lemma possessive_before_barrier:
  assumes "barrier b"
  shows "(take 2 (after @ b # ys) = [CHR 0x27, CHR ''s''] \<and>
          at_boundary (Some (CHR ''s'')) (drop 2 (after @ b # ys))) =
         (take 2 after = [CHR 0x27, CHR ''s''] \<and> at_boundary (Some (CHR ''s'')) (drop 2 after))"
proof (cases after)
  case Nil
  then show ?thesis using assms by (simp add: barrier_def)
next
  case (Cons x xs)
  show ?thesis
  proof (cases xs)
    case Nil
    have "b \<noteq> CHR ''s''" using assms by (auto simp: barrier_def re_word_chars)
    then show ?thesis using Cons Nil by simp
  next
    case (Cons y zs)
    then show ?thesis
      using \<open>after = x # xs\<close> next_char_barrier [OF assms, of zs ys]
      by (simp add: at_boundary_def)
  qed
qed

lemma take_two_length: "take 2 xs = [x, y] \<Longrightarrow> 2 \<le> length xs"
proof -
  assume a: "take 2 xs = [x, y]"
  have "length (take 2 xs) = 2" unfolding a by simp
  then show ?thesis by simp
qed

lemma sub_possessive_barrier:
  assumes b: "barrier b"
  shows "sub_possessive prev (xs @ b # ys) =
           sub_possessive prev xs @ b # sub_possessive None ys"
proof (induction xs arbitrary: prev rule: length_induct)
  case (1 xs)
  show ?case
  proof (cases xs)
    case Nil
    have "sub_possessive prev (b # ys) = b # sub_possessive (Some b) ys"
      using b by (intro sub_possessive_skip) (simp add: barrier_classes)
    moreover have "sub_possessive (Some b) ys = sub_possessive None ys"
      using b by (intro sub_possessive_prev) (simp add: barrier_def)
    ultimately show ?thesis using Nil by simp
  next
    case (Cons c cs)
    let ?S = "c # cs"
    let ?L = "c # cs @ b # ys"
    let ?run = "takeWhile ascii_letter ?S"
    let ?after = "dropWhile ascii_letter ?S"
    have run: "takeWhile ascii_letter ?L = ?run" "dropWhile ascii_letter ?L = ?after @ b # ys"
      using run_before_barrier [OF b, of ?S ys] by simp_all
    have bd: "at_boundary prev ?L = at_boundary prev ?S"
      by (simp add: at_boundary_def)
    note pb = possessive_before_barrier [OF b, of ?after ys]
    show ?thesis
    proof (cases "at_boundary prev ?S \<and> ?run \<noteq> [] \<and> take 2 ?after = [CHR 0x27, CHR ''s''] \<and>
                  at_boundary (Some (CHR ''s'')) (drop 2 ?after)")
      case True
      then have "take 2 ?after = [CHR 0x27, CHR ''s'']" by blast
      then have len: "2 \<le> length ?after" by (rule take_two_length)
      have d: "drop 2 (?after @ b # ys) = drop 2 ?after @ b # ys"
        using take_drop_short [OF len] by simp
      have L: "sub_possessive prev ?L =
               ?run @ sub_possessive (Some (CHR ''s'')) (drop 2 ?after @ b # ys)"
        using True pb bd
        by (simp only: sub_possessive.simps(2) [of prev c "cs @ b # ys"] Let_def run d simp_thms if_True)
      have S: "sub_possessive prev ?S = ?run @ sub_possessive (Some (CHR ''s'')) (drop 2 ?after)"
        using True by (simp only: sub_possessive.simps(2) Let_def simp_thms if_True)
      have "length (drop 2 ?after) < length xs"
        unfolding Cons using length_dropWhile_le [of ascii_letter ?S] by simp
      then have "sub_possessive (Some (CHR ''s'')) (drop 2 ?after @ b # ys) =
                 sub_possessive (Some (CHR ''s'')) (drop 2 ?after) @ b # sub_possessive None ys"
        using 1 by blast
      then show ?thesis
        unfolding Cons using L S by simp
    next
      case False
      then have "\<not> (at_boundary prev ?L \<and> takeWhile ascii_letter ?L \<noteq> [] \<and>
                  take 2 (dropWhile ascii_letter ?L) = [CHR 0x27, CHR ''s''] \<and>
                  at_boundary (Some (CHR ''s'')) (drop 2 (dropWhile ascii_letter ?L)))"
        unfolding run using pb bd by blast
      then have L: "sub_possessive prev ?L = c # sub_possessive (Some c) (cs @ b # ys)"
        by (rule sub_possessive_skip)
      have S: "sub_possessive prev ?S = c # sub_possessive (Some c) cs"
        using False by (rule sub_possessive_skip)
      have "sub_possessive (Some c) (cs @ b # ys) =
            sub_possessive (Some c) cs @ b # sub_possessive None ys"
        using 1 Cons by simp
      then show ?thesis
        unfolding Cons using L S by simp
    qed
  qed
qed

lemma findall_bounded_barrier:
  assumes b: "barrier b"
  shows "findall_bounded prev (xs @ b # ys) = findall_bounded prev xs @ findall_bounded None ys"
proof (induction xs arbitrary: prev rule: length_induct)
  case (1 xs)
  show ?case
  proof (cases xs)
    case Nil
    have "findall_bounded prev (b # ys) = findall_bounded (Some b) ys"
      using b by (simp add: findall_bounded.simps(2) barrier_classes)
    moreover have "findall_bounded (Some b) ys = findall_bounded None ys"
      using b by (intro findall_bounded_prev) (simp add: barrier_def)
    ultimately show ?thesis using Nil by simp
  next
    case (Cons c cs)
    let ?S = "c # cs"
    let ?L = "c # cs @ b # ys"
    let ?run = "takeWhile ascii_letter ?S"
    let ?rest = "dropWhile ascii_letter ?S"
    have run: "takeWhile ascii_letter ?L = ?run" "dropWhile ascii_letter ?L = ?rest @ b # ys"
      using run_before_barrier [OF b, of ?S ys] by simp_all
    have bd: "at_boundary prev ?L = at_boundary prev ?S"
      by (simp add: at_boundary_def)
    have ba: "at_boundary (Some (last ?run)) (?rest @ b # ys) =
              at_boundary (Some (last ?run)) ?rest"
      by (simp only: at_boundary_def next_char_barrier [OF b])
    show ?thesis
    proof (cases "at_boundary prev ?S \<and> ?run \<noteq> [] \<and> at_boundary (Some (last ?run)) ?rest")
      case True
      have L: "findall_bounded prev ?L =
               ?run # findall_bounded (Some (last ?run)) (?rest @ b # ys)"
        using True bd ba
        by (simp only: findall_bounded.simps(2) [of prev c "cs @ b # ys"] Let_def run simp_thms if_True)
      have S: "findall_bounded prev ?S = ?run # findall_bounded (Some (last ?run)) ?rest"
        using True by (simp only: findall_bounded.simps(2) Let_def simp_thms if_True)
      have "?run \<noteq> []" using True by simp
      then have "length ?rest < length xs"
        unfolding Cons using length_dropWhile_le [of ascii_letter cs]
        by (simp split: if_splits)
      then have "findall_bounded (Some (last ?run)) (?rest @ b # ys) =
                 findall_bounded (Some (last ?run)) ?rest @ findall_bounded None ys"
        using 1 by blast
      then show ?thesis
        unfolding Cons using L S by simp
    next
      case False
      then have L: "findall_bounded prev ?L = findall_bounded (Some c) (cs @ b # ys)"
        using bd ba
        by (simp only: findall_bounded.simps(2) [of prev c "cs @ b # ys"] Let_def run simp_thms if_False)
      have S: "findall_bounded prev ?S = findall_bounded (Some c) cs"
        using False by (simp only: findall_bounded.simps(2) Let_def simp_thms if_False)
      have "findall_bounded (Some c) (cs @ b # ys) =
            findall_bounded (Some c) cs @ findall_bounded None ys"
        using 1 Cons by simp
      then show ?thesis
        unfolding Cons using L S by simp
    qed
  qed
qed

lemma foldl_barrier:
  assumes "barrier b"
  shows "list_all (\<lambda>(k, v). key_letters k \<and> map lower_char k = k \<and> k \<noteq> []) entries \<Longrightarrow>
   foldl (\<lambda>t (contraction, expansion). sub_contraction contraction (join_spaces expansion) None t)
     (xs @ b # ys) entries =
   foldl (\<lambda>t (contraction, expansion). sub_contraction contraction (join_spaces expansion) None t)
     xs entries @
   b # foldl (\<lambda>t (contraction, expansion). sub_contraction contraction (join_spaces expansion) None t)
     ys entries"
proof (induction entries arbitrary: xs ys)
  case Nil
  then show ?case by simp
next
  case (Cons e entries)
  obtain k v where e: "e = (k, v)" by (cases e)
  have k: "key_letters k" "map lower_char k = k" "k \<noteq> []"
    using Cons.prems e by simp_all
  have rest: "list_all (\<lambda>(k, v). key_letters k \<and> map lower_char k = k \<and> k \<noteq> []) entries"
    using Cons.prems by simp
  show ?case
    unfolding e using sub_contraction_barrier [OF assms k] Cons.IH [OF rest] by simp
qed

lemma expand_standard_barrier:
  "barrier b \<Longrightarrow> expand_standard (xs @ b # ys) = expand_standard xs @ b # expand_standard ys"
  unfolding expand_standard_def by (rule foldl_barrier [OF _ table_keys_letters])

lemma expand_contractions_barrier:
  "barrier b \<Longrightarrow>
   expand_contractions (xs @ b # ys) = expand_contractions xs @ b # expand_contractions ys"
  by (simp add: expand_contractions_def expand_standard_barrier sub_possessive_barrier)

lemma extract_words_barrier:
  "barrier b \<Longrightarrow>
   extract_words_with_smart_contractions (xs @ b # ys) =
     extract_words_with_smart_contractions xs @ extract_words_with_smart_contractions ys"
  by (simp add: extract_words_with_smart_contractions_def Let_def expand_contractions_barrier
        findall_bounded_barrier)

lemma expand_standard_Nil: "expand_standard [] = []"
  using expand_standard_plain [of "[]"] by simp

lemma expand_contractions_Nil: "expand_contractions [] = []"
  by (simp add: expand_contractions_def expand_standard_Nil)

lemma extract_words_Nil: "extract_words_with_smart_contractions [] = []"
  by (simp add: extract_words_with_smart_contractions_def expand_contractions_Nil)

text \<open>
  A function on texts that splits at every barrier character splits around a word that
  stands alone.
\<close>

lemma split_around:
  fixes f :: "string \<Rightarrow> 'a list"
  assumes split: "\<And>xs b ys. barrier b \<Longrightarrow> f (xs @ b # ys) = f xs @ sep b @ f ys"
    and nil: "f [] = []"
    and alone: "standalone pre post"
  shows "f (pre @ k @ post) = f pre @ f k @ f post"
proof -
  have behind: "f (k @ post) = f k @ f post"
  proof (cases post)
    case Nil
    then show ?thesis by (simp add: nil)
  next
    case (Cons b post')
    then have b: "barrier b" using alone by (simp add: standalone_def)
    have "f (k @ b # post') = f k @ sep b @ f post'"
      using b by (rule split)
    moreover have "f ([] @ b # post') = f [] @ sep b @ f post'"
      using b by (rule split)
    ultimately show ?thesis using Cons by (simp add: nil)
  qed
  show ?thesis
  proof (cases "pre = []")
    case True
    then show ?thesis using behind by (simp add: nil)
  next
    case False
    then have b: "barrier (last pre)" using alone by (simp add: standalone_def)
    have e: "pre @ k @ post = butlast pre @ last pre # (k @ post)"
      using False by (metis append_Cons append_Nil append_assoc append_butlast_last_id)
    have 1: "f (butlast pre @ last pre # (k @ post)) =
             f (butlast pre) @ sep (last pre) @ f (k @ post)"
      using b by (rule split)
    have "f (butlast pre @ last pre # []) = f (butlast pre) @ sep (last pre) @ f []"
      using b by (rule split)
    then have 2: "f pre = f (butlast pre) @ sep (last pre)"
      using False by (simp add: nil)
    show ?thesis
      unfolding e 1 behind 2 by simp
  qed
qed

lemma expand_standard_around:
  "standalone pre post \<Longrightarrow>
   expand_standard (pre @ k @ post) = expand_standard pre @ expand_standard k @ expand_standard post"
  using expand_standard_barrier expand_standard_Nil
  by (rule split_around [where sep = "\<lambda>b. [b]", simplified])

lemma expand_contractions_around:
  "standalone pre post \<Longrightarrow>
   expand_contractions (pre @ k @ post) =
     expand_contractions pre @ expand_contractions k @ expand_contractions post"
  using expand_contractions_barrier expand_contractions_Nil
  by (rule split_around [where sep = "\<lambda>b. [b]", simplified])

lemma extract_words_around:
  "standalone pre post \<Longrightarrow>
   extract_words_with_smart_contractions (pre @ k @ post) =
     extract_words_with_smart_contractions pre @ extract_words_with_smart_contractions k @
     extract_words_with_smart_contractions post"
  using extract_words_barrier extract_words_Nil
  by (rule split_around [where sep = "\<lambda>b. []", simplified])

lemma word_list_method1:
  "word_list (count_words_method1 s) = extract_words_with_smart_contractions s"
  by (simp add: count_words_method1_def make_result_def Let_def)

lemma word_list_around:
  "standalone pre post \<Longrightarrow>
   word_list (count_words_method1 (pre @ k @ post)) =
     word_list (count_words_method1 pre) @ word_list (count_words_method1 k) @
     word_list (count_words_method1 post)"
  unfolding word_list_method1 by (rule extract_words_around)

section \<open>A word of the table, a possessive off the table\<close>

lemma table_expansions:
  "list_all (\<lambda>(k, rs). rs \<noteq> [] \<and>
      list_all (\<lambda>r. plain_word r \<and> lower r = r \<and> r \<notin> set (keys STANDARD_CONTRACTIONS)) rs)
     STANDARD_CONTRACTIONS"
  by (simp add: STANDARD_CONTRACTIONS_def keys_def plain_word_def lower_def ascii_letter_chars
        lower_char_chars)

lemma table_plain_key:
  "list_all (\<lambda>k. CHR 0x27 \<in> set k \<or> k = ''cannot'') (keys STANDARD_CONTRACTIONS)"
  "''cannot's'' \<notin> set (keys STANDARD_CONTRACTIONS)"
  by (simp_all add: STANDARD_CONTRACTIONS_def keys_def)

lemma lower_char_letter: "ascii_letter c \<Longrightarrow> ascii_letter (lower_char c)"
  by (auto simp: ascii_letter_def code_point_lower_char Let_def)

lemma lower_plain_no_apostrophe: "plain_word u \<Longrightarrow> CHR 0x27 \<notin> set (lower u)"
proof
  assume u: "plain_word u" and "CHR 0x27 \<in> set (lower u)"
  then obtain c where c: "c \<in> set u" "lower_char c = CHR 0x27"
    by (auto simp: lower_def)
  then have "c = CHR 0x27" by (simp add: lower_char_apostrophe)
  with u c(1) show False
    by (auto simp: plain_word_def list_all_iff ascii_letter_chars)
qed

lemma sub_contraction_whole:
  assumes "p \<noteq> []" "lower k = p" "map lower_char p = p" "re_word (hd k)" "re_word (last k)"
  shows "sub_contraction p repl None k = repl"
proof -
  obtain c cs where k: "k = c # cs"
    using assms(1,2) by (cases k) (auto simp: lower_def)
  have len: "length k = length p" using assms(2) by (auto simp: lower_def)
  have m: "match_ci p k"
    using assms(2,3) len by (simp add: match_ci_iff lower_def)
  have tk: "take (length p) (c # cs) = k" "drop (length p) (c # cs) = []"
    using len k by simp_all
  show ?thesis
    using m assms(1,4,5) unfolding k
    by (simp add: sub_contraction.simps(2) Let_def tk [unfolded k] at_boundary_def
          del: take_all drop_all)
qed


lemma foldl_expansion_inert:
  assumes rs: "list_all (\<lambda>r. plain_word r \<and> lower r = r \<and> r \<notin> set (keys STANDARD_CONTRACTIONS)) rs"
    and es: "list_all (\<lambda>(p, v). key_shape p \<and> p \<in> set (keys STANDARD_CONTRACTIONS)) es"
  shows "foldl (\<lambda>t (contraction, expansion). sub_contraction contraction (join_spaces expansion) None t)
           (join_spaces rs) es = join_spaces rs"
proof -
  let ?items = "map (\<lambda>r. (r, False)) rs"
  have w: "map written ?items = rs" by (induction rs) simp_all
  have "list_all (\<lambda>(k, v). key_shape k \<and>
       list_all (\<lambda>item. plain_word (fst item) \<and> lower (written item) \<noteq> k \<and>
                         lower (fst item) \<noteq> k) ?items) es"
    using rs es by (fastforce simp: list_all_iff)
  then show ?thesis
    using foldl_off_table [of ?items es] unfolding w by simp
qed

text \<open>
  The loop over the table on a word \<open>u's\<close> alone: the first entry whose key is the word in
  lower case replaces it, and no later entry touches the words of the replacement.
\<close>

lemma foldl_possessive_shaped:
  assumes u: "plain_word u" "lower u \<notin> set (keys STANDARD_CONTRACTIONS)"
  shows "list_all (\<lambda>(p, v). key_shape p \<and> p \<in> set (keys STANDARD_CONTRACTIONS) \<and> v \<noteq> [] \<and>
           list_all (\<lambda>r. plain_word r \<and> lower r = r \<and> r \<notin> set (keys STANDARD_CONTRACTIONS)) v) es \<Longrightarrow>
   foldl (\<lambda>t (contraction, expansion). sub_contraction contraction (join_spaces expansion) None t)
     (u @ [CHR 0x27, CHR ''s'']) es =
   (case map_of es (lower (u @ [CHR 0x27, CHR ''s''])) of
      None \<Rightarrow> u @ [CHR 0x27, CHR ''s''] | Some rs \<Rightarrow> join_spaces rs)"
proof (induction es)
  case Nil
  then show ?case by simp
next
  case (Cons e es)
  obtain p v where e: "e = (p, v)" by (cases e)
  let ?k = "u @ [CHR 0x27, CHR ''s'']"
  have p: "key_shape p" "p \<in> set (keys STANDARD_CONTRACTIONS)"
    and v: "list_all (\<lambda>r. plain_word r \<and> lower r = r \<and> r \<notin> set (keys STANDARD_CONTRACTIONS)) v"
    using Cons.prems e by simp_all
  have rest: "list_all (\<lambda>(p, v). key_shape p \<and> p \<in> set (keys STANDARD_CONTRACTIONS) \<and> v \<noteq> [] \<and>
           list_all (\<lambda>r. plain_word r \<and> lower r = r \<and> r \<notin> set (keys STANDARD_CONTRACTIONS)) v) es"
    using Cons.prems by simp
  then have rest': "list_all (\<lambda>(p, v). key_shape p \<and> p \<in> set (keys STANDARD_CONTRACTIONS)) es"
    by (auto simp: list_all_iff)
  show ?case
  proof (cases "lower ?k = p")
    case True
    have hd_last: "re_word (hd ?k)" "re_word (last ?k)"
      using u(1) by (cases u) (simp_all add: plain_word_def letter_word re_word_chars)
    have "sub_contraction p (join_spaces v) None ?k = join_spaces v"
      using _ True _ hd_last by (rule sub_contraction_whole) (use p(1) in \<open>auto simp: key_shape_def\<close>)
    then show ?thesis
      unfolding e using True foldl_expansion_inert [OF v rest'] by simp
  next
    case False
    have "lower u \<noteq> p" using u(2) p(2) by auto
    with False have "sub_contraction p (join_spaces v) None (u @ CHR 0x27 # CHR ''s'' # []) =
           u @ CHR 0x27 # CHR ''s'' # sub_contraction p (join_spaces v) (Some (CHR ''s'')) []"
      using u(1) p(1) by (intro sub_contraction_possessive) simp_all
    then show ?thesis
      unfolding e using False Cons.IH [OF rest] by simp
  qed
qed

lemma table_entries_ok:
  "list_all (\<lambda>(p, v). key_shape p \<and> p \<in> set (keys STANDARD_CONTRACTIONS) \<and> v \<noteq> [] \<and>
     list_all (\<lambda>r. plain_word r \<and> lower r = r \<and> r \<notin> set (keys STANDARD_CONTRACTIONS)) v)
     STANDARD_CONTRACTIONS"
proof -
  have "key_shape p \<and> p \<in> set (keys STANDARD_CONTRACTIONS) \<and> v \<noteq> [] \<and>
     list_all (\<lambda>r. plain_word r \<and> lower r = r \<and> r \<notin> set (keys STANDARD_CONTRACTIONS)) v"
    if "(p, v) \<in> set STANDARD_CONTRACTIONS" for p v
  proof -
    have k: "p \<in> set (keys STANDARD_CONTRACTIONS)"
      using that by (force simp: keys_def)
    then have "key_shape p" using table_keys_shape by (simp add: list_all_iff)
    moreover have "v \<noteq> [] \<and>
      list_all (\<lambda>r. plain_word r \<and> lower r = r \<and> r \<notin> set (keys STANDARD_CONTRACTIONS)) v"
      using table_expansions that by (auto simp: list_all_iff)
    ultimately show ?thesis using k by simp
  qed
  then show ?thesis by (auto simp: list_all_iff)
qed

lemma possessive_shaped_key:
  assumes u: "plain_word u"
    and k: "map_of STANDARD_CONTRACTIONS (lower (u @ [CHR 0x27, CHR ''s''])) = Some rs"
  shows "expand_standard (u @ [CHR 0x27, CHR ''s'']) = join_spaces rs"
    and "expand_contractions (u @ [CHR 0x27, CHR ''s'']) = join_spaces rs"
    and "word_list (count_words_method1 (u @ [CHR 0x27, CHR ''s''])) = rs"
proof -
  have "lower u \<notin> set (keys STANDARD_CONTRACTIONS)"
  proof
    assume a: "lower u \<in> set (keys STANDARD_CONTRACTIONS)"
    then have "CHR 0x27 \<in> set (lower u) \<or> lower u = ''cannot''"
      using table_plain_key(1) by (simp add: list_all_iff)
    then have "lower u = ''cannot''"
      using lower_plain_no_apostrophe [OF u] by simp
    then have "lower (u @ [CHR 0x27, CHR ''s'']) = ''cannot's''"
      by (simp add: lower_def lower_char_chars)
    moreover have "lower (u @ [CHR 0x27, CHR ''s'']) \<in> set (keys STANDARD_CONTRACTIONS)"
      using map_of_SomeD [OF k] by (force simp: keys_def)
    ultimately show False using table_plain_key(2) by simp
  qed
  from foldl_possessive_shaped [OF u this table_entries_ok]
  show e: "expand_standard (u @ [CHR 0x27, CHR ''s'']) = join_spaces rs"
    unfolding expand_standard_def k by simp
  have rs: "list_all (\<lambda>r. plain_word r \<and> lower r = r \<and> r \<notin> set (keys STANDARD_CONTRACTIONS)) rs"
    using table_expansions map_of_SomeD [OF k] by (auto simp: list_all_iff)
  then have plain: "list_all plain_word rs" by (simp add: list_all_iff)
  show c: "expand_contractions (u @ [CHR 0x27, CHR ''s'']) = join_spaces rs"
    unfolding expand_contractions_def e
    using plain_no_apostrophe [OF plain] by (rule sub_possessive_no_apostrophe)
  have "map lower rs = rs"
    using rs by (induction rs) simp_all
  then show "word_list (count_words_method1 (u @ [CHR 0x27, CHR ''s''])) = rs"
    unfolding word_list_method1 extract_words_with_smart_contractions_def Let_def c
      findall_bounded_plain [OF plain] .
qed

lemma possessive_off_table:
  assumes "plain_word u" "off_table (u, True)"
  shows "expand_standard (u @ [CHR 0x27, CHR ''s'']) = u @ [CHR 0x27, CHR ''s'']"
    and "expand_contractions (u @ [CHR 0x27, CHR ''s'']) = u"
    and "word_list (count_words_method1 (u @ [CHR 0x27, CHR ''s''])) = [lower u]"
proof -
  have a: "list_all (\<lambda>item. plain_word (fst item) \<and> off_table item) [(u, True)]"
    using assms by simp
  show "expand_standard (u @ [CHR 0x27, CHR ''s'']) = u @ [CHR 0x27, CHR ''s'']"
    using expand_standard_off_table [OF a] by simp
  show "expand_contractions (u @ [CHR 0x27, CHR ''s'']) = u"
    using method1_off_table(1) [OF a] by simp
  show "word_list (count_words_method1 (u @ [CHR 0x27, CHR ''s''])) = [lower u]"
    using method1_off_table(2) [OF a] by simp
qed

section \<open>Strategy B takes one token from a chunk\<close>

lemma strip_chars_not_alpha: "c \<in> set strip_chars \<Longrightarrow> \<not> isalpha c"
  by (auto simp: strip_chars_def isalpha_def code_point_def)

lemma filter_isalpha_dropWhile:
  "filter isalpha (dropWhile (\<lambda>c. c \<in> set strip_chars) xs) = filter isalpha xs"
  by (induction xs) (auto dest: strip_chars_not_alpha)

lemma filter_isalpha_strip: "filter isalpha (strip token) = filter isalpha token"
proof -
  let ?d = "dropWhile (\<lambda>c. c \<in> set strip_chars)"
  have "filter isalpha (rev (?d (rev (?d token)))) = rev (filter isalpha (?d (rev (?d token))))"
    by (simp add: rev_filter)
  also have "\<dots> = rev (filter isalpha (rev (?d token)))"
    by (simp only: filter_isalpha_dropWhile)
  also have "\<dots> = filter isalpha (?d token)"
    by (simp add: rev_filter)
  also have "\<dots> = filter isalpha token"
    by (rule filter_isalpha_dropWhile)
  finally show ?thesis by (simp only: strip_def)
qed

lemma method2_words_letters:
  "method2_words tokens =
     filter (\<lambda>w. w \<noteq> []) (map (\<lambda>token. lower (filter isalpha token)) tokens)"
proof (induction tokens)
  case Nil
  then show ?case by simp
next
  case (Cons t ts)
  have ex: "list_ex isalpha (strip t) \<longleftrightarrow> filter isalpha t \<noteq> []"
    unfolding filter_isalpha_strip [of t, symmetric]
    by (simp add: list_ex_iff filter_empty_conv)
  have ne: "filter isalpha t \<noteq> [] \<Longrightarrow> strip t \<noteq> []"
    using filter_isalpha_strip [of t] by auto
  show ?case
    using Cons ex ne
    by (auto simp: method2_words.simps(2) Let_def lower_def filter_isalpha_strip)
qed

lemma length_method2_words: "length (method2_words tokens) \<le> length tokens"
  unfolding method2_words_letters
  by (rule order_trans [OF length_filter_le]) simp

lemma word_list_method2:
  "word_list (count_words_method2 s) = method2_words (split_whitespace s)"
  by (simp add: count_words_method2_def make_result_def Let_def)

lemma total_words_method2:
  "total_words (count_words_method2 s) = int (length (method2_words (split_whitespace s)))"
  by (simp add: count_words_method2_def make_result_def Let_def)

lemma keys_method1:
  "list_all (\<lambda>(contraction, expansion).
      extract_words_with_smart_contractions contraction = expansion) STANDARD_CONTRACTIONS"
  by (simp only: list.pred_inject method1_eval cong: if_weak_cong)

lemma keys_method2:
  "list_all (\<lambda>(contraction, expansion).
      method2_words (split_whitespace contraction) = [filter isalpha contraction])
     STANDARD_CONTRACTIONS"
  by (simp only: list.pred_inject method1_eval cong: if_weak_cong)

text \<open>
  C8. Strategy B does not expand contractions. For every text it takes at most one token
  from each chunk between white space, the letters of the chunk joined in lower case, so
  that a contraction stays one token; on every contraction of the table, standing alone,
  strategy B gives the single token of its letters and strategy A the words of the
  expansion. On \<open>don't\<close> strategy B gives the single token dont (the apostrophe dropped, the
  letters joined), strategy A the two tokens do, not.
\<close>

theorem method2_keeps_contraction:
  "word_list (count_words_method2 text) =
     filter (\<lambda>w. w \<noteq> [])
       (map (\<lambda>token. lower (filter isalpha token)) (split_whitespace text)) \<and>
   total_words (count_words_method2 text) \<le> int (length (split_whitespace text)) \<and>
   list_all (\<lambda>(contraction, expansion).
       word_list (count_words_method2 contraction) = [filter isalpha contraction] \<and>
       word_list (count_words_method1 contraction) = expansion) STANDARD_CONTRACTIONS \<and>
   word_list (count_words_method2 ''don't'') = [''dont''] \<and>
   total_words (count_words_method2 ''don't'') = 1 \<and>
   word_list (count_words_method1 ''don't'') = [''do'', ''not''] \<and>
   total_words (count_words_method1 ''don't'') = 2"
proof (intro conjI)
  show "word_list (count_words_method2 text) =
     filter (\<lambda>w. w \<noteq> [])
       (map (\<lambda>token. lower (filter isalpha token)) (split_whitespace text))"
    unfolding word_list_method2 by (rule method2_words_letters)
  show "total_words (count_words_method2 text) \<le> int (length (split_whitespace text))"
    unfolding total_words_method2 using length_method2_words by simp
  show "list_all (\<lambda>(contraction, expansion).
       word_list (count_words_method2 contraction) = [filter isalpha contraction] \<and>
       word_list (count_words_method1 contraction) = expansion) STANDARD_CONTRACTIONS"
    unfolding word_list_method2 word_list_method1
    using keys_method1 keys_method2 by (simp add: list_all_iff case_prod_unfold)
qed (simp_all add: method2_dont method1_dont count_words_method2_def count_words_method1_def
        make_result_def Let_def)

section \<open>The table comes before the possessive pattern\<close>

lemma sub_possessive_word:
  assumes "plain_word u"
  shows "sub_possessive None (u @ [CHR 0x27, CHR ''s'']) = u"
  using sub_possessive_written [of "[(u, True)]" None] assms by simp

lemma possessive_keys:
  "map fst (filter (\<lambda>(contraction, expansion). sub_possessive None contraction \<noteq> contraction)
     STANDARD_CONTRACTIONS) =
   [''he's'', ''she's'', ''it's'', ''who's'', ''what's'', ''where's'', ''when's'', ''why's'',
    ''how's'', ''there's'', ''that's'', ''here's'', ''let's'']"
  by (simp only: eval_rules STANDARD_CONTRACTIONS_def fst_conv cong: if_weak_cong)

lemma possessive_keys_two_words:
  "list_all (\<lambda>(k, rs). last k = CHR ''s'' \<longrightarrow> length rs = 2) STANDARD_CONTRACTIONS"
  by (simp add: STANDARD_CONTRACTIONS_def)

lemma expand_standard_its_sally: "expand_standard ''It's Sally's cat'' = ''it is Sally's cat''"
  by (simp only: method1_eval cong: if_weak_cong)

lemma expand_contractions_cat: "expand_contractions ''It's a cat'' = ''it is a cat''"
  by (simp only: method1_eval cong: if_weak_cong)

lemma expand_contractions_its_sally:
  "expand_contractions ''It's Sally's cat'' = ''it is Sally cat''"
  by (simp only: method1_eval cong: if_weak_cong)

lemma words_its_sally:
  "extract_words_with_smart_contractions ''It's Sally's cat'' =
     [''it'', ''is'', ''sally'', ''cat'']"
  by (simp only: method1_eval cong: if_weak_cong)

lemma possessive_its_sally_alone: "sub_possessive None ''It's Sally's cat'' = ''It Sally cat''"
  by (simp only: eval_rules cong: if_weak_cong)

text \<open>
  C6. The table is applied before the possessive pattern, so a contraction that has the
  shape of a possessive is resolved by the table. For every word \<open>u's\<close> of ASCII letters
  that is, in any letter case, a key of the table, standing alone in any text (at each side
  the end of the text or a character that is neither a word character nor an apostrophe):
  the possessive pattern alone would strip the word to \<open>u\<close>, but step 1 replaces it by its
  expansion, the expander returns the expansion between the expanded texts around it, and
  strategy A counts the words of the expansion, which are not the base word alone. The
  table has 13 keys the possessive pattern matches. Step 1 turns \<open>It's a cat\<close> into
  \<open>it is a cat\<close> (alone, the possessive pattern would give \<open>It a cat\<close>), and strategy A
  counts the four tokens it, is, a, cat, not its, a, cat; in \<open>It's Sally's cat\<close> the table
  resolves \<open>It's\<close> and the possessive pattern strips \<open>Sally's\<close>.
\<close>

theorem contraction_before_possessive:
  "(standalone pre post \<and> plain_word u \<and>
    map_of STANDARD_CONTRACTIONS (lower (u @ [CHR 0x27, CHR ''s''])) = Some expansion \<longrightarrow>
      sub_possessive None (u @ [CHR 0x27, CHR ''s'']) = u \<and>
      expand_standard (pre @ u @ [CHR 0x27, CHR ''s''] @ post) =
        expand_standard pre @ join_spaces expansion @ expand_standard post \<and>
      expand_contractions (pre @ u @ [CHR 0x27, CHR ''s''] @ post) =
        expand_contractions pre @ join_spaces expansion @ expand_contractions post \<and>
      word_list (count_words_method1 (pre @ u @ [CHR 0x27, CHR ''s''] @ post)) =
        word_list (count_words_method1 pre) @ expansion @ word_list (count_words_method1 post) \<and>
      expansion \<noteq> [lower u]) \<and>
   map fst (filter (\<lambda>(contraction, expansion). sub_possessive None contraction \<noteq> contraction)
     STANDARD_CONTRACTIONS) =
     [''he's'', ''she's'', ''it's'', ''who's'', ''what's'', ''where's'', ''when's'', ''why's'',
      ''how's'', ''there's'', ''that's'', ''here's'', ''let's''] \<and>
   expand_standard ''It's a cat'' = ''it is a cat'' \<and>
   expand_contractions ''It's a cat'' = ''it is a cat'' \<and>
   sub_possessive None ''It's a cat'' = ''It a cat'' \<and>
   word_list (count_words_method1 ''It's a cat'') = [''it'', ''is'', ''a'', ''cat''] \<and>
   word_list (count_words_method1 ''It's a cat'') \<noteq> [''its'', ''a'', ''cat''] \<and>
   total_words (count_words_method1 ''It's a cat'') = 4 \<and>
   expand_standard ''It's Sally's cat'' = ''it is Sally's cat'' \<and>
   expand_contractions ''It's Sally's cat'' = ''it is Sally cat'' \<and>
   sub_possessive None ''It's Sally's cat'' = ''It Sally cat'' \<and>
   word_list (count_words_method1 ''It's Sally's cat'') = [''it'', ''is'', ''sally'', ''cat'']"
proof (intro conjI impI)
  assume a: "standalone pre post \<and> plain_word u \<and>
    map_of STANDARD_CONTRACTIONS (lower (u @ [CHR 0x27, CHR ''s''])) = Some expansion"
  then have s: "standalone pre post" and u: "plain_word u"
    and k: "map_of STANDARD_CONTRACTIONS (lower (u @ [CHR 0x27, CHR ''s''])) = Some expansion"
    by simp_all
  show "sub_possessive None (u @ [CHR 0x27, CHR ''s'']) = u"
    using u by (rule sub_possessive_word)
  show "expand_standard (pre @ u @ [CHR 0x27, CHR ''s''] @ post) =
        expand_standard pre @ join_spaces expansion @ expand_standard post"
    using expand_standard_around [OF s, of "u @ [CHR 0x27, CHR ''s'']"]
      possessive_shaped_key(1) [OF u k] by simp
  show "expand_contractions (pre @ u @ [CHR 0x27, CHR ''s''] @ post) =
        expand_contractions pre @ join_spaces expansion @ expand_contractions post"
    using expand_contractions_around [OF s, of "u @ [CHR 0x27, CHR ''s'']"]
      possessive_shaped_key(2) [OF u k] by simp
  show "word_list (count_words_method1 (pre @ u @ [CHR 0x27, CHR ''s''] @ post)) =
        word_list (count_words_method1 pre) @ expansion @ word_list (count_words_method1 post)"
    using word_list_around [OF s, of "u @ [CHR 0x27, CHR ''s'']"]
      possessive_shaped_key(3) [OF u k] by simp
  have "(lower (u @ [CHR 0x27, CHR ''s'']), expansion) \<in> set STANDARD_CONTRACTIONS"
    using k by (rule map_of_SomeD)
  moreover have "last (lower (u @ [CHR 0x27, CHR ''s''])) = CHR ''s''"
    by (simp add: lower_def lower_char_chars)
  ultimately have "length expansion = 2"
    using possessive_keys_two_words by (auto simp: list_all_iff)
  then show "expansion \<noteq> [lower u]" by auto
next
  show "map fst (filter (\<lambda>(contraction, expansion). sub_possessive None contraction \<noteq> contraction)
     STANDARD_CONTRACTIONS) =
     [''he's'', ''she's'', ''it's'', ''who's'', ''what's'', ''where's'', ''when's'', ''why's'',
      ''how's'', ''there's'', ''that's'', ''here's'', ''let's'']"
    by (rule possessive_keys)
qed (simp_all add: expand_standard_cat expand_contractions_cat words_cat possessive_cat
        expand_standard_its_sally expand_contractions_its_sally words_its_sally
        possessive_its_sally_alone count_words_method1_def make_result_def Let_def)

theorem contraction_before_possessive_witness:
  "standalone [] '' a cat'' \<and> plain_word ''It'' \<and>
   map_of STANDARD_CONTRACTIONS (lower ''It's'') = Some [''it'', ''is''] \<and>
   sub_possessive None ''It's'' = ''It'' \<and>
   expand_standard ''It's a cat'' = expand_standard [] @ ''it is'' @ expand_standard '' a cat'' \<and>
   word_list (count_words_method1 ''It's a cat'') =
     word_list (count_words_method1 []) @ [''it'', ''is''] @
     word_list (count_words_method1 '' a cat'') \<and>
   [''it'', ''is''] \<noteq> [lower ''It'']"
proof -
  have h: "standalone [] '' a cat'' \<and> plain_word ''It'' \<and>
    map_of STANDARD_CONTRACTIONS (lower (''It'' @ [CHR 0x27, CHR ''s''])) = Some [''it'', ''is'']"
    by (simp add: standalone_def barrier_def plain_word_def STANDARD_CONTRACTIONS_def lower_def
          re_word_chars ascii_letter_chars lower_char_chars)
  from contraction_before_possessive [of "[]" "'' a cat''" "''It''" "[''it'', ''is'']",
      THEN conjunct1, THEN mp, OF h] h
  show ?thesis by simp
qed

section \<open>A possessive in any text\<close>

lemma plain_key_cannot:
  assumes "plain_word u"
  shows "lower u \<in> set (keys STANDARD_CONTRACTIONS) \<longleftrightarrow> lower u = ''cannot''"
proof
  assume "lower u \<in> set (keys STANDARD_CONTRACTIONS)"
  then have "CHR 0x27 \<in> set (lower u) \<or> lower u = ''cannot''"
    using table_plain_key(1) by (simp add: list_all_iff)
  then show "lower u = ''cannot''"
    using lower_plain_no_apostrophe [OF assms] by simp
next
  assume "lower u = ''cannot''"
  then show "lower u \<in> set (keys STANDARD_CONTRACTIONS)"
    by (simp add: STANDARD_CONTRACTIONS_def keys_def)
qed

lemma words_dont_worry:
  "extract_words_with_smart_contractions ''Don't worry, '' = [''do'', ''not'', ''worry'']"
  by (simp only: method1_eval cong: if_weak_cong)

lemma words_coat:
  "extract_words_with_smart_contractions '' coat is here.'' = [''coat'', ''is'', ''here'']"
  by (simp only: method1_eval cong: if_weak_cong)

lemma expand_standard_dont_worry: "expand_standard ''Don't worry, '' = ''do not worry, ''"
  by (simp only: method1_eval cong: if_weak_cong)

lemma expand_standard_coat: "expand_standard '' coat is here.'' = '' coat is here.''"
  by (simp only: method1_eval cong: if_weak_cong)

text \<open>
  C7 as amended. A possessive \<open>u's\<close> of ASCII letters that stands alone in the text (at each
  side the end of the text or a character that is neither a word character nor an
  apostrophe), that is no key of the table and whose base word \<open>u\<close> is no key either (the
  only key without an apostrophe is \<open>cannot\<close>), is left as it is by the table step and has
  only its \<open>'s\<close> stripped by step 2, whatever the text before and behind it: strategy A
  returns the tokens of the text before it, the base word in lower case, and the tokens of
  the text behind it. The same holds for every word of a text of plain words and such
  possessives joined by single spaces. On the two texts of the specification:
  \<open>Uncle's story\<close> gives uncle, story; in \<open>Don't worry, Sally's coat is here.\<close> the table
  expands \<open>Don't\<close> and leaves \<open>Sally's\<close> to step 2, which gives seven tokens, all different.
\<close>

theorem possessive_only_stripped:
  "(standalone pre post \<and> plain_word u \<and> off_table (u, True) \<longrightarrow>
      expand_standard (pre @ u @ [CHR 0x27, CHR ''s''] @ post) =
        expand_standard pre @ u @ [CHR 0x27, CHR ''s''] @ expand_standard post \<and>
      expand_contractions (pre @ u @ [CHR 0x27, CHR ''s''] @ post) =
        expand_contractions pre @ u @ expand_contractions post \<and>
      word_list (count_words_method1 (pre @ u @ [CHR 0x27, CHR ''s''] @ post)) =
        word_list (count_words_method1 pre) @ [lower u] @
        word_list (count_words_method1 post)) \<and>
   (plain_word u \<longrightarrow>
      (lower u \<in> set (keys STANDARD_CONTRACTIONS) \<longleftrightarrow> lower u = ''cannot'')) \<and>
   (list_all (\<lambda>item. plain_word (fst item) \<and> off_table item) items \<longrightarrow>
      expand_standard (join_spaces (map written items)) = join_spaces (map written items) \<and>
      expand_contractions (join_spaces (map written items)) = join_spaces (map fst items) \<and>
      word_list (count_words_method1 (join_spaces (map written items))) =
        map (\<lambda>item. lower (fst item)) items) \<and>
   expand_standard ''Uncle's story'' = ''Uncle's story'' \<and>
   expand_contractions ''Uncle's story'' = ''Uncle story'' \<and>
   word_list (count_words_method1 ''Uncle's story'') = [''uncle'', ''story''] \<and>
   total_words (count_words_method1 ''Uncle's story'') = 2 \<and>
   expand_standard ''Don't worry, Sally's coat is here.'' =
     ''do not worry, Sally's coat is here.'' \<and>
   expand_contractions ''Don't worry, Sally's coat is here.'' =
     ''do not worry, Sally coat is here.'' \<and>
   word_list (count_words_method1 ''Don't worry, Sally's coat is here.'') =
     [''do'', ''not'', ''worry'', ''sally'', ''coat'', ''is'', ''here''] \<and>
   total_words (count_words_method1 ''Don't worry, Sally's coat is here.'') = 7 \<and>
   unique_words (count_words_method1 ''Don't worry, Sally's coat is here.'') = 7"
proof (intro conjI impI)
  assume a: "standalone pre post \<and> plain_word u \<and> off_table (u, True)"
  then have s: "standalone pre post" and u: "plain_word u" and off: "off_table (u, True)"
    by simp_all
  show "expand_standard (pre @ u @ [CHR 0x27, CHR ''s''] @ post) =
        expand_standard pre @ u @ [CHR 0x27, CHR ''s''] @ expand_standard post"
    using expand_standard_around [OF s, of "u @ [CHR 0x27, CHR ''s'']"]
      possessive_off_table(1) [OF u off] by simp
  show "expand_contractions (pre @ u @ [CHR 0x27, CHR ''s''] @ post) =
        expand_contractions pre @ u @ expand_contractions post"
    using expand_contractions_around [OF s, of "u @ [CHR 0x27, CHR ''s'']"]
      possessive_off_table(2) [OF u off] by simp
  show "word_list (count_words_method1 (pre @ u @ [CHR 0x27, CHR ''s''] @ post)) =
        word_list (count_words_method1 pre) @ [lower u] @
        word_list (count_words_method1 post)"
    using word_list_around [OF s, of "u @ [CHR 0x27, CHR ''s'']"]
      possessive_off_table(3) [OF u off] by simp
next
  assume "plain_word u"
  then show "lower u \<in> set (keys STANDARD_CONTRACTIONS) \<longleftrightarrow> lower u = ''cannot''"
    by (rule plain_key_cannot)
next
  assume a: "list_all (\<lambda>item. plain_word (fst item) \<and> off_table item) items"
  show "expand_standard (join_spaces (map written items)) = join_spaces (map written items)"
    using a by (rule expand_standard_off_table)
  show "expand_contractions (join_spaces (map written items)) = join_spaces (map fst items)"
    using a by (rule method1_off_table(1))
  show "word_list (count_words_method1 (join_spaces (map written items))) =
        map (\<lambda>item. lower (fst item)) items"
    using a by (rule method1_off_table(2))
qed (simp_all add: expand_standard_uncle possessive_uncle words_uncle expand_standard_sally
        possessive_sally words_sally Counter_sally expand_contractions_def
        extract_words_with_smart_contractions_def count_words_method1_def make_result_def
        Let_def)

theorem possessive_only_stripped_witness:
  "standalone ''Don't worry, '' '' coat is here.'' \<and> plain_word ''Sally'' \<and>
   off_table (''Sally'', True) \<and>
   expand_standard ''Don't worry, Sally's coat is here.'' =
     ''do not worry, '' @ ''Sally's'' @ '' coat is here.'' \<and>
   word_list (count_words_method1 ''Don't worry, Sally's coat is here.'') =
     [''do'', ''not'', ''worry''] @ [''sally''] @ [''coat'', ''is'', ''here''] \<and>
   lower ''Sally'' \<noteq> ''cannot'' \<and>
   list_all (\<lambda>item. plain_word (fst item) \<and> off_table item)
     [(''Uncle'', True), (''story'', False)] \<and>
   word_list (count_words_method1 ''Uncle's story'') = [''uncle'', ''story'']"
proof -
  have h: "standalone ''Don't worry, '' '' coat is here.'' \<and> plain_word ''Sally'' \<and>
    off_table (''Sally'', True)"
    by (simp add: standalone_def barrier_def plain_word_def off_table_def
          STANDARD_CONTRACTIONS_def keys_def lower_def re_word_chars ascii_letter_chars
          lower_char_chars)
  have g: "list_all (\<lambda>item. plain_word (fst item) \<and> off_table item)
     [(''Uncle'', True), (''story'', False)]"
    by (simp add: plain_word_def off_table_def STANDARD_CONTRACTIONS_def keys_def lower_def
          ascii_letter_chars lower_char_chars)
  have j: "join_spaces (map written [(''Uncle'', True), (''story'', False)]) = ''Uncle's story''"
    "map (\<lambda>item. lower (fst item)) [(''Uncle'', True), (''story'', False)] = [''uncle'', ''story'']"
    by (simp_all add: lower_def lower_char_chars)
  have l: "lower ''Sally'' = ''sally''"
    by (simp add: lower_def lower_char_chars)
  note t = possessive_only_stripped [of "''Don't worry, ''" "'' coat is here.''" "''Sally''"
      "[(''Uncle'', True), (''story'', False)]"]
  from t [THEN conjunct1, THEN mp, OF h]
  have 1: "expand_standard ''Don't worry, Sally's coat is here.'' =
     ''do not worry, '' @ ''Sally's'' @ '' coat is here.''"
    and 2: "word_list (count_words_method1 ''Don't worry, Sally's coat is here.'') =
     [''do'', ''not'', ''worry''] @ [''sally''] @ [''coat'', ''is'', ''here'']"
    unfolding word_list_method1 words_dont_worry words_coat expand_standard_dont_worry
      expand_standard_coat l by simp_all
  from t [THEN conjunct2, THEN conjunct2, THEN conjunct1, THEN mp, OF g]
  have 3: "word_list (count_words_method1 ''Uncle's story'') = [''uncle'', ''story'']"
    unfolding j by simp
  show ?thesis using h g 1 2 3 l by simp
qed

text \<open>
  The base word of a possessive can itself be a key: \<open>Cannot's\<close> is no key of the table, but
  the table splits its base word, and strategy A counts can, not, story.
\<close>

theorem possessive_of_cannot:
  "plain_word ''Cannot'' \<and>
   lower ''Cannot's'' \<notin> set (keys STANDARD_CONTRACTIONS) \<and>
   expand_standard ''Cannot's story'' = ''can not's story'' \<and>
   expand_contractions ''Cannot's story'' = ''can not story'' \<and>
   word_list (count_words_method1 ''Cannot's story'') = [''can'', ''not'', ''story'']"
  by (simp add: plain_word_def STANDARD_CONTRACTIONS_def keys_def lower_def
        ascii_letter_chars lower_char_chars expand_standard_cannots possessive_cannots
        words_cannots expand_contractions_def extract_words_with_smart_contractions_def
        count_words_method1_def make_result_def Let_def del: map_eq_Cons_conv)

end
